theory Spec2Isabelle
  imports Main "HOL-Library.Word"
begin

section \<open>s3backer: the process entry point and the NBD trampoline (main.c)\<close>

text \<open>
  The file \<^verbatim>\<open>main.c\<close> holds \<^verbatim>\<open>main\<close>, the trampoline that starts
  \<^verbatim>\<open>nbdkit\<close> and \<^verbatim>\<open>nbd-client\<close> as child processes, and the bookkeeping of
  those children in the file-scope variables \<^verbatim>\<open>child_pids\<close> and
  \<^verbatim>\<open>num_child_pids\<close>. Each C function becomes a HOL function of the same name that
  takes the state it reads and returns the state it leaves.
\<close>

subsection \<open>The state and the environment\<close>

type_synonym pid_t = int

definition MAX_CHILD_PROCESSES :: nat where
  "MAX_CHILD_PROCESSES = 10"

definition NBDKIT_STARTUP_WAIT_PAUSE :: nat where
  "NBDKIT_STARTUP_WAIT_PAUSE = 50"

definition MAX_NBDKIT_STARTUP_WAIT_MILLIS :: nat where
  "MAX_NBDKIT_STARTUP_WAIT_MILLIS = 1000"

text \<open>Signal and error numbers of the platform headers (their Linux values).\<close>

definition SIGHUP :: int where "SIGHUP = 1"
definition SIGINT :: int where "SIGINT = 2"
definition SIGQUIT :: int where "SIGQUIT = 3"
definition SIGTERM :: int where "SIGTERM = 15"
definition EPERM :: int where "EPERM = 1"
definition ENOENT :: int where "ENOENT = 2"
definition EINTR :: int where "EINTR = 4"
definition EACCES :: int where "EACCES = 13"
definition LOG_ERR :: int where "LOG_ERR = 3"
definition LOG_INFO :: int where "LOG_INFO = 6"

definition forward_signals :: "int list" where
  "forward_signals = [SIGHUP, SIGINT, SIGQUIT, SIGTERM]"

text \<open>
  One answer of the operating system to a call: the value returned, \<^verbatim>\<open>errno\<close>, and for
  \<^verbatim>\<open>wait\<close> whether the status satisfies \<^verbatim>\<open>WIFEXITED || WIFSIGNALED\<close>.
\<close>

record answer =
  ret :: int
  errno :: int
  terminated :: bool

text \<open>What the process does to the outside, in the order it does it.\<close>

datatype event =
    Message string
  | Fatal string
  | Log int string
  | Usage
  | Set_config_log
  | Store_shutdown
  | Store_destroy
  | Fuse_ops_destroy
  | Fork_off string "string list" pid_t
  | Kill pid_t int
  | Sigaction int
  | Unlink string
  | Daemon
  | Nanosleep

text \<open>
  The world: the two file-scope variables of the child bookkeeping, the signals that
  have a handler installed, the trace of events, and the oracle, the answers the
  operating system will give to the calls still to come, one per call.
\<close>

record world =
  child_pids :: "pid_t list"
  num_child_pids :: nat
  handlers :: "int list"
  trace :: "event list"
  answers :: "answer list"

text \<open>
  How a call ends other than by returning: \<^verbatim>\<open>err\<close>, \<^verbatim>\<open>errx\<close>,
  \<^verbatim>\<open>daemon_err\<close> and \<^verbatim>\<open>daemon_errx\<close> leave the process with an exit status, a
  failed \<^verbatim>\<open>assert\<close> aborts it (the text is the asserted expression), and a system
  call for which the oracle has no answer left never returns.
\<close>

datatype stop = Exited int | AssertFailed string | Blocked

type_synonym 'a res = "(stop \<times> world) + ('a \<times> world)"

definition and_then :: "'a res \<Rightarrow> ('a \<Rightarrow> world \<Rightarrow> 'b res) \<Rightarrow> 'b res" where
  "and_then m f = (case m of Inl e \<Rightarrow> Inl e | Inr (a, w) \<Rightarrow> f a w)"

text \<open>The fields of \<^verbatim>\<open>struct s3b_config\<close> that main.c reads.\<close>

record s3b_config =
  debug :: bool
  foreground :: bool
  read_only :: bool
  nbd :: bool
  erase :: bool
  reset :: bool

text \<open>
  What main.c takes from the rest of the program and from the build: the functions of other
  modules it calls, by their results (for a function that returns a pointer, whether the
  pointer is not \<^verbatim>\<open>NULL\<close>), and the string macros of the configuration headers.
  Memory allocation is taken to succeed: \<^verbatim>\<open>add_string\<close> and \<^verbatim>\<open>asprintf\<close> append
  and format without failing.
\<close>

record env =
  NBDKIT :: bool
  s3backer_get_config :: "string list \<Rightarrow> bool \<Rightarrow> bool \<Rightarrow> s3b_config option"
  s3backer_erase :: "s3b_config \<Rightarrow> int"
  s3backer_reset :: "s3b_config \<Rightarrow> int"
  s3backer_create_store :: "s3b_config \<Rightarrow> bool"
  fuse_ops_create :: "s3b_config \<Rightarrow> bool"
  fuse_main :: "s3b_config \<Rightarrow> int"
  is_valid_s3b_flag :: "string \<Rightarrow> int"
  socket_file :: "string \<Rightarrow> string"
  NBDKIT_EXECUTABLE :: string
  NBD_CLIENT_EXECUTABLE :: string
  PACKAGE :: string
  NBD_S3B_PARAM_PREFIX :: string
  NBD_BUCKET_PARAMETER_NAME :: string

definition emit :: "event \<Rightarrow> world \<Rightarrow> world" where
  "emit e w = w\<lparr>trace := trace w @ [e]\<rparr>"

definition daemon_warnx :: "s3b_config \<Rightarrow> string \<Rightarrow> world \<Rightarrow> world" where
  "daemon_warnx config txt w = (if debug config then emit (Message txt) w else w)"

text \<open>
  \<^verbatim>\<open>err(1, ...)\<close>, \<^verbatim>\<open>errx(1, ...)\<close>, \<^verbatim>\<open>daemon_err(config, 1, ...)\<close> and
  \<^verbatim>\<open>daemon_errx(config, 1, ...)\<close>: print the message and leave the process with
  status 1 (the only status main.c passes).
\<close>

definition err :: "string \<Rightarrow> world \<Rightarrow> 'a res" where
  "err txt w = Inl (Exited 1, emit (Fatal txt) w)"

definition daemon_err :: "string \<Rightarrow> world \<Rightarrow> 'a res" where
  "daemon_err txt w = err txt w"

definition syscall :: "world \<Rightarrow> (answer \<times> world) option" where
  "syscall w = (case answers w of [] \<Rightarrow> None | a # rest \<Rightarrow> Some (a, w\<lparr>answers := rest\<rparr>))"

text \<open>
  \<^verbatim>\<open>memmove(a + dst, a + src, n * sizeof(*a))\<close> on an array held as a list: the
  \<open>n\<close> elements from \<open>src\<close> land at \<open>dst\<close>, everything else stays.
\<close>

text \<open>The children on record: the first \<^verbatim>\<open>num_child_pids\<close> entries of the array.\<close>

definition recorded :: "world \<Rightarrow> pid_t list" where
  "recorded w = take (num_child_pids w) (child_pids w)"

definition memmove :: "'a list \<Rightarrow> nat \<Rightarrow> nat \<Rightarrow> nat \<Rightarrow> 'a list" where
  "memmove a dst src n = take dst a @ take n (drop src a) @ drop (dst + n) a"

subsection \<open>The child bookkeeping\<close>

definition start_child_process ::
    "s3b_config \<Rightarrow> string \<Rightarrow> string list \<Rightarrow> world \<Rightarrow> pid_t res" where
  "start_child_process config executable params w =
     (let w1 = (if debug config
                then w\<lparr>trace := trace w @ Message ''executing with these parameters:'' # map Message params\<rparr>
                else w)
      in if \<not> num_child_pids w1 < MAX_CHILD_PROCESSES
         then Inl (AssertFailed ''num_child_pids < MAX_CHILD_PROCESSES'', w1)
         else (case syscall w1 of
                 None \<Rightarrow> Inl (Blocked, w1)
               | Some (a, w2) \<Rightarrow>
                   if ret a = - 1 then daemon_err executable w2
                   else
                     let pid = ret a;
                         w3 = w2\<lparr>child_pids := (child_pids w2)[num_child_pids w2 := pid],
                                 num_child_pids := num_child_pids w2 + 1\<rparr>;
                         w4 = emit (Fork_off executable params pid) w3
                     in Inr (pid, daemon_warnx config ''started as process'' w4)))"

function record_child_exited_loop :: "s3b_config \<Rightarrow> pid_t \<Rightarrow> nat \<Rightarrow> world \<Rightarrow> world" where
  "record_child_exited_loop config pid i w =
     (if i < num_child_pids w then
        (if child_pids w ! i = pid then
           (let w1 = daemon_warnx config ''reaped child'' w;
                w2 = w1\<lparr>num_child_pids := num_child_pids w1 - 1\<rparr>
            in w2\<lparr>child_pids := memmove (child_pids w2) i (i + 1) (num_child_pids w2 - i)\<rparr>)
         else record_child_exited_loop config pid (i + 1) w)
      else w)"
  by pat_completeness auto
termination
  by (relation "measure (\<lambda>(config, pid, i, w). num_child_pids w - i)") auto

declare record_child_exited_loop.simps [simp del]

definition record_child_exited :: "s3b_config \<Rightarrow> pid_t \<Rightarrow> world \<Rightarrow> world" where
  "record_child_exited config pid w = record_child_exited_loop config pid 0 w"

fun usleep_loop :: "answer list \<Rightarrow> answer list option" where
  "usleep_loop [] = None"
| "usleep_loop (a # rest) = (if ret a = - 1 then Some rest else usleep_loop rest)"

definition wait_for_child_to_exit :: "s3b_config \<Rightarrow> bool \<Rightarrow> world \<Rightarrow> pid_t res" where
  "wait_for_child_to_exit config sleep_if_none w =
     (if num_child_pids w = 0 then
        (if \<not> sleep_if_none then Inr (0, w)
         else (case usleep_loop (answers w) of
                 None \<Rightarrow> Inl (Blocked, w\<lparr>answers := []\<rparr>)
               | Some rest \<Rightarrow>
                   Inr (- 1, daemon_warnx config ''rec'd signal during sleep'' (w\<lparr>answers := rest\<rparr>))))
      else (case syscall w of
              None \<Rightarrow> Inl (Blocked, w)
            | Some (a, w1) \<Rightarrow>
                if ret a = - 1 then
                  (if errno a = EINTR
                   then Inr (- 1, daemon_warnx config ''rec'd signal during wait'' w1)
                   else daemon_err ''waitpid'' w1)
                else if \<not> terminated a
                  then Inl (AssertFailed ''WIFEXITED(wstatus) || WIFSIGNALED(wstatus)'', w1)
                else Inr (ret a, record_child_exited config (ret a) w1)))"

fun kill_each :: "s3b_config \<Rightarrow> pid_t \<Rightarrow> pid_t list \<Rightarrow> world \<Rightarrow> unit res" where
  "kill_each config except [] w = Inr ((), w)"
| "kill_each config except (p # ps) w =
     (if p = except then kill_each config except ps w
      else
        (let w1 = daemon_warnx config ''killing child'' w
         in case syscall w1 of
              None \<Rightarrow> Inl (Blocked, w1)
            | Some (a, w2) \<Rightarrow>
                let w3 = emit (Kill p SIGTERM) w2;
                    w4 = (if ret a = - 1 \<and> debug config then emit (Message ''kill'') w3 else w3)
                in kill_each config except ps w4))"

definition kill_remaining_children :: "s3b_config \<Rightarrow> pid_t \<Rightarrow> world \<Rightarrow> unit res" where
  "kill_remaining_children config except w =
     kill_each config except (take (num_child_pids w) (child_pids w)) w"

text \<open>
  The bookkeeping never touches the oracle, and a call of
  \<^verbatim>\<open>wait_for_child_to_exit\<close> that returns has consumed an answer unless it returned 0
  at once; the two loops of the trampoline terminate for this reason.
\<close>

lemma answers_record_child_exited_loop:
  "answers (record_child_exited_loop config pid i w) = answers w"
proof (induction config pid i w rule: record_child_exited_loop.induct)
  case (1 config pid i w)
  then show ?case
    by (subst record_child_exited_loop.simps)
       (simp add: daemon_warnx_def emit_def Let_def)
qed

lemma usleep_loop_shorter: "usleep_loop as = Some rest \<Longrightarrow> length rest < length as"
  by (induction as) (auto split: if_splits)

lemma wait_for_child_to_exit_consumes:
  assumes "wait_for_child_to_exit config sleep_if_none w = Inr (pid, w')"
  shows "(pid = 0 \<and> w' = w) \<or> length (answers w') < length (answers w)"
  using assms usleep_loop_shorter
  by (auto simp: wait_for_child_to_exit_def syscall_def daemon_warnx_def emit_def daemon_err_def
        err_def record_child_exited_def answers_record_child_exited_loop
      split: if_splits option.splits list.splits)

subsection \<open>The trampoline\<close>

definition starts_with_dash :: "string \<Rightarrow> bool" where
  "starts_with_dash s = (case s of [] \<Rightarrow> False | c # _ \<Rightarrow> c = CHR ''-'')"

definition to_lower :: "char \<Rightarrow> char" where
  "to_lower c = (let n = (of_char c :: nat) in if 65 \<le> n \<and> n \<le> 90 then char_of (n + 32) else c)"

text \<open>
  Lines 180 to 212: the loop that takes the \<^verbatim>\<open>--nbd\<close>, \<^verbatim>\<open>--nbd-flag=\<close> and
  \<^verbatim>\<open>--nbd-param=\<close> flags out of \<^verbatim>\<open>argv\<close>. The list \<open>argv\<close> holds the
  \<^verbatim>\<open>argc\<close> arguments, so \<^verbatim>\<open>argc\<close> is its length and the \<^verbatim>\<open>memmove\<close> that
  closes the gap at \<open>i\<close> (with \<^verbatim>\<open>--argc\<close>) drops the element at \<open>i\<close>; the
  \<^verbatim>\<open>i--\<close> that follows is undone by the \<^verbatim>\<open>i++\<close> of the loop. A flag that is
  refused ends the function with 2 (\<open>Inl\<close>, with the text given to \<^verbatim>\<open>warnx\<close>).
\<close>

function nbd_extract ::
    "nat \<Rightarrow> string list \<Rightarrow> string list \<Rightarrow> string list \<Rightarrow>
     string + (nat \<times> string list \<times> string list \<times> string list)" where
  "nbd_extract i argv nbd_flags nbd_params =
     (if i < length argv then
        (if \<not> starts_with_dash (argv ! i) then Inr (i, argv, nbd_flags, nbd_params)
         else if argv ! i = ''--'' then Inr (i + 1, argv, nbd_flags, nbd_params)
         else if take 5 (argv ! i) \<noteq> ''--nbd'' then nbd_extract (i + 1) argv nbd_flags nbd_params
         else if argv ! i = ''--nbd''
           then nbd_extract i (take i argv @ drop (i + 1) argv) nbd_flags nbd_params
         else if CHR ''='' \<notin> set (argv ! i) then Inl (argv ! i)
         else if takeWhile (\<lambda>c. c \<noteq> CHR ''='') (argv ! i) = ''--nbd-flag''
           then nbd_extract i (take i argv @ drop (i + 1) argv)
                  (nbd_flags @ [drop 1 (dropWhile (\<lambda>c. c \<noteq> CHR ''='') (argv ! i))]) nbd_params
         else if takeWhile (\<lambda>c. c \<noteq> CHR ''='') (argv ! i) = ''--nbd-param''
           then nbd_extract i (take i argv @ drop (i + 1) argv) nbd_flags
                  (nbd_params @ [drop 1 (dropWhile (\<lambda>c. c \<noteq> CHR ''='') (argv ! i))])
         else Inl (takeWhile (\<lambda>c. c \<noteq> CHR ''='') (argv ! i)))
      else Inr (i, argv, nbd_flags, nbd_params))"
  by pat_completeness auto
termination
  by (relation "measure (\<lambda>(i, argv, nbd_flags, nbd_params). length argv - i)") auto

declare nbd_extract.simps [simp del]

text \<open>
  Lines 268 to 312: the s3backer flags become nbdkit plugin parameters. The loop reads
  \<^verbatim>\<open>argv\<close> from index 1 and changes no index, so it is a recursion over the arguments.
\<close>

fun s3b_params :: "env \<Rightarrow> string list \<Rightarrow> string + string list" where
  "s3b_params env [] = Inr []"
| "s3b_params env (param # rest) =
     (if \<not> starts_with_dash param \<or> param = ''--'' then Inr []
      else if param = ''-f'' \<or> param = ''-d'' then s3b_params env rest
      else if \<not> starts_with_dash (drop 1 param) then Inl ''invalid flag''
      else
        (let p = drop 2 param;
             has_value = (CHR ''='' \<in> set p);
             name = takeWhile (\<lambda>c. c \<noteq> CHR ''='') p;
             val = drop 1 (dropWhile (\<lambda>c. c \<noteq> CHR ''='') p);
             kind = is_valid_s3b_flag env name
         in if kind = 1 \<and> has_value \<and> map to_lower val \<noteq> ''true''
              then Inl ''boolean flag value must be true''
            else if kind = 2 \<and> \<not> has_value then Inl ''flag requires a value''
            else if kind \<noteq> 1 \<and> kind \<noteq> 2 then Inl ''invalid flag''
            else (case s3b_params env rest of
                    Inl msg \<Rightarrow> Inl msg
                  | Inr others \<Rightarrow>
                      Inr ((NBD_S3B_PARAM_PREFIX env @ name @ ''='' @
                            (if has_value then val else ''true'')) # others))))"

text \<open>Lines 346 to 360: wait for the socket file of nbdkit to come into existence.\<close>

function socket_wait_loop :: "string \<Rightarrow> nat \<Rightarrow> world \<Rightarrow> bool res" where
  "socket_wait_loop unix_socket elapsed_millis w =
     (if elapsed_millis \<le> MAX_NBDKIT_STARTUP_WAIT_MILLIS then
        (case syscall w of
           None \<Rightarrow> Inl (Blocked, w)
         | Some (a, w1) \<Rightarrow>
             if ret a = 0 then Inr (True, w1)
             else if errno a \<noteq> ENOENT then daemon_err unix_socket w1
             else socket_wait_loop unix_socket (elapsed_millis + NBDKIT_STARTUP_WAIT_PAUSE)
                    (emit Nanosleep w1))
      else Inr (False, w))"
  by pat_completeness auto
termination
  by (relation "measure (\<lambda>(unix_socket, elapsed_millis, w).
        MAX_NBDKIT_STARTUP_WAIT_MILLIS + 1 - elapsed_millis)")
     (auto simp: MAX_NBDKIT_STARTUP_WAIT_MILLIS_def NBDKIT_STARTUP_WAIT_PAUSE_def)

declare socket_wait_loop.simps [simp del]

text \<open>Lines 377 to 383: a handler for every signal of \<^verbatim>\<open>forward_signals\<close>.\<close>

fun install_handlers :: "int list \<Rightarrow> world \<Rightarrow> unit res" where
  "install_handlers [] w = Inr ((), w)"
| "install_handlers (s # sigs) w =
     (case syscall w of
        None \<Rightarrow> Inl (Blocked, w)
      | Some (a, w1) \<Rightarrow>
          if ret a = - 1 then daemon_err ''sigaction'' w1
          else install_handlers sigs (emit (Sigaction s) (w1\<lparr>handlers := handlers w1 @ [s]\<rparr>)))"

text \<open>
  Lines 385 to 392: wait for the first child to exit or for a signal, ignoring the exit of
  nbd-client once. The result is \<^verbatim>\<open>exit_pid\<close>.
\<close>

function wait_loop :: "s3b_config \<Rightarrow> pid_t \<Rightarrow> world \<Rightarrow> pid_t res" where
  "wait_loop config client_pid w =
     (case wait_for_child_to_exit config (\<not> foreground config) w of
        Inl e \<Rightarrow> Inl e
      | Inr (exit_pid, w') \<Rightarrow>
          if exit_pid = client_pid then wait_loop config (- 2) w' else Inr (exit_pid, w'))"
  by pat_completeness auto
termination
proof (relation "measure (\<lambda>(config, client_pid, w).
          2 * length (answers w) + (if client_pid = - 2 then 0 else 1))", goal_cases)
  case 1
  show ?case by simp
next
  case (2 config client_pid w x exit_pid w')
  then have "wait_for_child_to_exit config (\<not> foreground config) w = Inr (exit_pid, w')"
    by simp
  from wait_for_child_to_exit_consumes [OF this] 2 show ?case
    by auto
qed

declare wait_loop.simps [simp del]

text \<open>Lines 405 to 409: wait until no child is left.\<close>

function drain_loop :: "s3b_config \<Rightarrow> world \<Rightarrow> unit res" where
  "drain_loop config w =
     (case wait_for_child_to_exit config False w of
        Inl e \<Rightarrow> Inl e
      | Inr (pid, w') \<Rightarrow> if pid = 0 then Inr ((), w') else drain_loop config w')"
  by pat_completeness auto
termination
proof (relation "measure (\<lambda>(config, w). length (answers w))", goal_cases)
  case 1
  show ?case by simp
next
  case (2 config w x pid w')
  then have "wait_for_child_to_exit config False w = Inr (pid, w')"
    by simp
  from wait_for_child_to_exit_consumes [OF this] 2 show ?case
    by auto
qed

declare drain_loop.simps [simp del]

text \<open>
  Lines 377 to 415, from the installation of the signal handlers to the end: the
  supervision of the two children.
\<close>

definition trampoline_supervise ::
    "env \<Rightarrow> s3b_config \<Rightarrow> pid_t \<Rightarrow> string \<Rightarrow> string \<Rightarrow> world \<Rightarrow> int res" where
  "trampoline_supervise env config client_pid unix_socket device_param w =
     and_then (install_handlers forward_signals w) (\<lambda>_ w1.
     and_then (wait_loop config client_pid w1) (\<lambda>exit_pid w2.
     and_then (start_child_process config (NBD_CLIENT_EXECUTABLE env)
                 [NBD_CLIENT_EXECUTABLE env, ''-d'', device_param] w2) (\<lambda>cleanup_pid w3.
     and_then (kill_remaining_children config cleanup_pid w3) (\<lambda>_ w4.
     and_then (drain_loop config w4) (\<lambda>_ w5.
     Inr (0, emit (Unlink unix_socket) w5))))))"

text \<open>Lines 325 to 375: start nbdkit, go to the background, start nbd-client.\<close>

definition trampoline_run ::
    "env \<Rightarrow> s3b_config \<Rightarrow> string list \<Rightarrow> string \<Rightarrow> string \<Rightarrow> string \<Rightarrow> world \<Rightarrow> int res" where
  "trampoline_run env config command_line unix_socket bucket_param device_param w =
     and_then (start_child_process config (NBDKIT_EXECUTABLE env) command_line w) (\<lambda>server_pid w1.
     and_then (if \<not> foreground config
               then and_then (wait_for_child_to_exit config False w1) (\<lambda>exit_pid w'.
                      if exit_pid \<noteq> server_pid
                      then (if exit_pid = - 1 then err ''got signal during setup'' w'
                            else err ''wait() returned'' w')
                      else Inr ((), w'))
               else Inr ((), w1)) (\<lambda>_ w2.
     and_then (if \<not> foreground config
               then (case syscall (emit (Message ''connecting'') w2) of
                       None \<Rightarrow> Inl (Blocked, emit (Message ''connecting'') w2)
                     | Some (a, w') \<Rightarrow>
                         if ret a = - 1 then err ''daemon'' w'
                         else Inr ((), emit Set_config_log (emit Daemon w')))
               else Inr ((), w2)) (\<lambda>_ w3.
     and_then (socket_wait_loop unix_socket 0 w3) (\<lambda>file_created w4.
     if \<not> file_created then daemon_err ''failed to start'' w4
     else
     and_then (start_child_process config (NBD_CLIENT_EXECUTABLE env)
                 ([NBD_CLIENT_EXECUTABLE env, ''-unix'', unix_socket, ''-block-size'', ''4096'',
                   ''-nofork''] @ (if read_only config then [''-readonly''] else []) @
                  [device_param]) w4) (\<lambda>client_pid w5.
     trampoline_supervise env config client_pid unix_socket device_param w5)))))"

text \<open>
  Lines 224 to 323: the checks on the device and the socket file, the configuration, and
  the command line of nbdkit. The name of the socket file is made of the device and inode
  numbers of the block device; the environment gives it as \<open>socket_file\<close>.
\<close>

definition trampoline_setup ::
    "env \<Rightarrow> string list \<Rightarrow> string list \<Rightarrow> string list \<Rightarrow> string \<Rightarrow> string \<Rightarrow> world \<Rightarrow> int res" where
  "trampoline_setup env argv nbd_flags nbd_params bucket_param device_param w =
     (case syscall w of
        None \<Rightarrow> Inl (Blocked, w)
      | Some (a, w1) \<Rightarrow>
          if ret a = - 1 then err device_param w1
          else
            (let unix_socket = socket_file env device_param;
                 w2 = emit (Unlink unix_socket) w1
             in case syscall w2 of
                  None \<Rightarrow> Inl (Blocked, w2)
                | Some (b, w3) \<Rightarrow>
                    if ret b = - 1 \<and> errno b \<noteq> ENOENT then
                      (if errno b = EPERM \<or> errno b = EACCES
                       then err ''must be run as root when the --nbd flag is used'' w3
                       else err unix_socket w3)
                    else
                      (case s3backer_get_config env argv True True of
                         None \<Rightarrow> Inr (1, w3)
                       | Some config \<Rightarrow>
                           (case s3b_params env (drop 1 argv) of
                              Inl msg \<Rightarrow> Inr (2, emit (Message msg) w3)
                            | Inr plugin_params \<Rightarrow>
                                trampoline_run env config
                                  ([NBDKIT_EXECUTABLE env] @
                                   (if debug config then [''--verbose''] else []) @
                                   (if foreground config then [''--foreground''] else []) @
                                   (if read_only config then [''--read-only''] else []) @
                                   [''--filter=exitlast'', ''--unix'', unix_socket] @
                                   nbd_flags @ [PACKAGE env] @ plugin_params @
                                   [NBD_BUCKET_PARAMETER_NAME env @ ''='' @ bucket_param] @
                                   nbd_params)
                                  unix_socket bucket_param device_param w3))))"

definition trampoline_to_nbd :: "env \<Rightarrow> string list \<Rightarrow> world \<Rightarrow> int res" where
  "trampoline_to_nbd env argv0 w =
     (case nbd_extract 1 argv0 [] [] of
        Inl flag \<Rightarrow> Inr (2, emit (Message (''invalid flag '' @ flag)) w)
      | Inr (i, argv, nbd_flags, nbd_params) \<Rightarrow>
          if int (length argv) - int i \<noteq> 2 then Inr (2, w)
          else trampoline_setup env argv nbd_flags nbd_params (argv ! i) (argv ! (i + 1)) w)"

subsection \<open>The entry point\<close>

text \<open>Lines 84 to 93: look for the \<^verbatim>\<open>--nbd\<close> flag; the result is the variable \<^verbatim>\<open>nbd\<close>.\<close>

fun nbd_flag_scan :: "string list \<Rightarrow> bool" where
  "nbd_flag_scan [] = False"
| "nbd_flag_scan (param # rest) =
     (if \<not> starts_with_dash param \<or> param = ''--'' then False
      else if param = ''--nbd'' then True
      else nbd_flag_scan rest)"

definition main :: "env \<Rightarrow> string list \<Rightarrow> world \<Rightarrow> int res" where
  "main env argv w =
     (if nbd_flag_scan (drop 1 argv) then
        (if NBDKIT env then
           and_then (trampoline_to_nbd env argv w) (\<lambda>i w'.
             if i = 2 then Inr (1, emit Usage w') else Inr (i, w'))
         else err ''invalid flag --nbd: not built with NBD support'' w)
      else
        (case s3backer_get_config env argv False False of
           None \<Rightarrow> Inr (1, w)
         | Some config \<Rightarrow>
             if nbd config
               then err ''the --nbd flag is not supported in config files'' w
             else if erase config
               then (if s3backer_erase env config \<noteq> 0 then Inr (1, w) else Inr (0, w))
             else if reset config
               then (if s3backer_reset env config \<noteq> 0 then Inr (1, w) else Inr (0, w))
             else if \<not> s3backer_create_store env config
               then err ''error creating s3backer_store'' w
             else
               (let w1 = (if \<not> foreground config then emit Set_config_log w else w)
                in if \<not> fuse_ops_create env config
                     then Inr (1, emit Store_destroy (emit Store_shutdown w1))
                   else
                     (let w2 = emit (Log LOG_INFO ''s3backer process started'') w1
                      in if fuse_main env config \<noteq> 0
                           then Inr (1, emit Fuse_ops_destroy
                                          (emit (Log LOG_ERR ''error starting FUSE'') w2))
                         else Inr (0, w2)))))"

subsection \<open>The command line, as the flags and the positional parameters\<close>

text \<open>
  The leading flags of a command line are the arguments after the program name up to the
  first one that does not begin with \<^verbatim>\<open>-\<close> or that is \<^verbatim>\<open>--\<close>; the positional
  parameters are what follows them, after the \<^verbatim>\<open>--\<close> if there is one. A flag that
  begins with \<^verbatim>\<open>--nbd\<close> is well formed when it is \<^verbatim>\<open>--nbd\<close>,
  \<^verbatim>\<open>--nbd-flag=value\<close> or \<^verbatim>\<open>--nbd-param=value\<close>.
\<close>

definition is_flag :: "string \<Rightarrow> bool" where
  "is_flag p = (starts_with_dash p \<and> p \<noteq> ''--'')"

definition leading_flags :: "string list \<Rightarrow> string list" where
  "leading_flags argv = takeWhile is_flag (drop 1 argv)"

definition positional :: "string list \<Rightarrow> string list" where
  "positional argv =
     (case dropWhile is_flag (drop 1 argv) of
        [] \<Rightarrow> []
      | p # ps \<Rightarrow> if p = ''--'' then ps else p # ps)"

definition nbd_flag_ok :: "string \<Rightarrow> bool" where
  "nbd_flag_ok f = (f = ''--nbd'' \<or> take 11 f = ''--nbd-flag='' \<or> take 12 f = ''--nbd-param='')"

definition positional_of :: "string list \<Rightarrow> string list" where
  "positional_of args =
     (case dropWhile is_flag args of
        [] \<Rightarrow> []
      | p # ps \<Rightarrow> if p = ''--'' then ps else p # ps)"

subsection \<open>Observations on a run\<close>

text \<open>
  The events that print or log a message; and the state in which the process starts, with
  the array of child pids zeroed, no child on record and no handler installed.
\<close>

fun is_message :: "event \<Rightarrow> bool" where
  "is_message (Message txt) = True"
| "is_message (Fatal txt) = True"
| "is_message (Log level txt) = True"
| "is_message e = False"

definition initial_world :: "answer list \<Rightarrow> world" where
  "initial_world as = \<lparr>child_pids = replicate MAX_CHILD_PROCESSES 0, num_child_pids = 0,
     handlers = [], trace = [], answers = as\<rparr>"

text \<open>
  The bound on the child bookkeeping: at most \<open>k\<close> children on record, in an array of
  \<^verbatim>\<open>MAX_CHILD_PROCESSES\<close> entries. A run keeps within \<open>k\<close> when the state it ends in,
  however it ends, is within \<open>k\<close> and it did not end by the failure of the assertion of
  \<^verbatim>\<open>start_child_process\<close>.
\<close>

definition children_within :: "nat \<Rightarrow> world \<Rightarrow> bool" where
  "children_within k w \<longleftrightarrow>
     num_child_pids w \<le> k \<and> length (child_pids w) = MAX_CHILD_PROCESSES"

definition run_within :: "nat \<Rightarrow> 'a res \<Rightarrow> bool" where
  "run_within k r =
     (case r of
        Inl (st, w) \<Rightarrow>
          st \<noteq> AssertFailed ''num_child_pids < MAX_CHILD_PROCESSES'' \<and> children_within k w
      | Inr (a, w) \<Rightarrow> children_within k w)"

text \<open>The signals sent by a run: the \<^verbatim>\<open>kill(pid, sig)\<close> calls of its trace, in order.\<close>

fun kills :: "event list \<Rightarrow> (pid_t \<times> int) list" where
  "kills [] = []"
| "kills (Kill pid sig # es) = (pid, sig) # kills es"
| "kills (e # es) = kills es"

section \<open>The layered block store\<close>

text \<open>
  Modelled from the spec: the block cache, the zero cache and the HTTP I/O layer. Their
  sources (block_cache.c, zero_cache.c, http_io.c) are not among the sources verified here;
  main.c only reaches them through \<^verbatim>\<open>s3backer_create_store\<close>. The model is
  sequential: an operation of a caller and a step of a worker are atomic, and a run is a
  list of them in the order they take effect. It covers the write-back mode of the block
  cache with eviction of any clean entry, without read-ahead and without the bounds that
  only make a caller wait; the EC protect layer is configured off, compression and
  encryption too, and a read passes no expected hash.
\<close>

type_synonym block = "8 word list"

text \<open>Modelled from the spec: the error kinds of section 7.\<close>

datatype store_error =
  NOT_FOUND | NOT_MODIFIED | INTEGRITY | AUTH | TRANSIENT | IO | CONFIG | OVERFLOW

text \<open>
  Modelled from the spec: the requests of the HTTP I/O layer for the object of a block, and
  how the object store answers an attempt: it serves it, it fails in a way that is retried
  (5xx, 408, 429, connection errors), or it refuses the credentials.
\<close>

datatype request = GET nat | PUT nat | DELETE nat

datatype response = Served | Unavailable | Forbidden

text \<open>
  Modelled from the spec: an object of the bucket, with the content hash kept in its
  metadata.
\<close>

record obj =
  body :: block
  etag :: nat

text \<open>
  Modelled from the spec: a cache entry, its state with the data it holds (section 4.1).
  \<open>WRITING2 d x\<close> holds the payload \<open>d\<close> of the write in flight and the newer data
  \<open>x\<close>; \<open>READING2 x\<close> holds the data \<open>x\<close> written while the read is in flight.
\<close>

datatype entry =
    CLEAN block
  | DIRTY block
  | WRITING block
  | WRITING2 block block
  | READING
  | READING2 block

text \<open>
  Modelled from the spec: the configuration (block count \<open>N\<close>, block size \<open>B\<close>, the
  bound on the attempts of one request, the content hash) and the state of the stack: the
  entries of the block cache, the zero bitmap, the bucket, the requests sent so far and the
  answers scripted for the attempts to come (an attempt with none left is served).
\<close>

record params =
  num_blocks :: nat
  block_size :: nat
  max_attempts :: nat
  md5 :: "block \<Rightarrow> nat"

record store =
  entries :: "nat \<Rightarrow> entry option"
  zero_bits :: "nat set"
  bucket :: "nat \<Rightarrow> obj option"
  requests :: "request list"
  responses :: "response list"

type_synonym 'a outcome = "(store_error + 'a) \<times> store"

definition zeros :: "params \<Rightarrow> block" where
  "zeros p = replicate (block_size p) 0"

definition all_zero :: "block \<Rightarrow> bool" where
  "all_zero x = list_all (\<lambda>b. b = 0) x"

text \<open>
  Modelled from the spec: one attempt of a request, and the retries of section 4.4:
  ``On retriable status or transport error: exponential backoff and retry up to a bound'';
  ``Non-retriable failures propagate''; once the bound is used up the error is \<open>IO\<close>.
\<close>

definition attempt :: "request \<Rightarrow> store \<Rightarrow> unit outcome" where
  "attempt rq s =
     (case responses s of
        [] \<Rightarrow> (Inr (), s\<lparr>requests := requests s @ [rq]\<rparr>)
      | r # rs \<Rightarrow>
          ((case r of Served \<Rightarrow> Inr () | Unavailable \<Rightarrow> Inl TRANSIENT | Forbidden \<Rightarrow> Inl AUTH),
           s\<lparr>requests := requests s @ [rq], responses := rs\<rparr>))"

fun with_retries :: "nat \<Rightarrow> request \<Rightarrow> store \<Rightarrow> unit outcome" where
  "with_retries 0 rq s = (Inl IO, s)"
| "with_retries (Suc n) rq s =
     (case attempt rq s of
        (Inl e, s') \<Rightarrow> if e = TRANSIENT then with_retries n rq s' else (Inl e, s')
      | (Inr u, s') \<Rightarrow> (Inr u, s'))"

text \<open>
  Modelled from the spec: the read of the HTTP I/O layer. ``On 200: ... verify the returned
  content hash matches the ETag/custom header and length matches B; on mismatch, fail
  INTEGRITY. On 404: return NOT_FOUND.''
\<close>

definition http_read :: "params \<Rightarrow> nat \<Rightarrow> store \<Rightarrow> block outcome" where
  "http_read p i s =
     (case with_retries (max_attempts p) (GET i) s of
        (Inl e, s') \<Rightarrow> (Inl e, s')
      | (Inr u, s') \<Rightarrow>
          (case bucket s' i of
             None \<Rightarrow> (Inl NOT_FOUND, s')
           | Some ob \<Rightarrow>
               if md5 p (body ob) = etag ob \<and> length (body ob) = block_size p
               then (Inr (body ob), s') else (Inl INTEGRITY, s')))"

text \<open>
  Modelled from the spec: the write of the HTTP I/O layer. ``PUT with headers carrying the
  original-payload hash ... An all-zero write is represented by a DELETE of the key.''
\<close>

definition http_write :: "params \<Rightarrow> nat \<Rightarrow> block \<Rightarrow> store \<Rightarrow> unit outcome" where
  "http_write p i x s =
     (if all_zero x then
        (case with_retries (max_attempts p) (DELETE i) s of
           (Inl e, s') \<Rightarrow> (Inl e, s')
         | (Inr u, s') \<Rightarrow> (Inr (), s'\<lparr>bucket := (bucket s')(i := None)\<rparr>))
      else
        (case with_retries (max_attempts p) (PUT i) s of
           (Inl e, s') \<Rightarrow> (Inl e, s')
         | (Inr u, s') \<Rightarrow>
             (Inr (), s'\<lparr>bucket := (bucket s')(i \<mapsto> \<lparr>body = x, etag = md5 p x\<rparr>)\<rparr>)))"

text \<open>
  Modelled from the spec: the zero cache (section 4.2). ``Read. If the bit is set, return an
  all-zero buffer without calling downstream. Else delegate.''
\<close>

definition zero_cache_read :: "params \<Rightarrow> nat \<Rightarrow> store \<Rightarrow> block outcome" where
  "zero_cache_read p i s =
     (if i \<in> zero_bits s then (Inr (zeros p), s) else http_read p i s)"

text \<open>
  Modelled from the spec: ``Write. If the payload is all-zero, issue a DELETE downstream and
  set the bit on success. Else clear the bit and delegate.''
\<close>

definition zero_cache_write :: "params \<Rightarrow> nat \<Rightarrow> block \<Rightarrow> store \<Rightarrow> unit outcome" where
  "zero_cache_write p i x s =
     (if all_zero x then
        (case http_write p i x s of
           (Inl e, s') \<Rightarrow> (Inl e, s')
         | (Inr u, s') \<Rightarrow> (Inr (), s'\<lparr>zero_bits := insert i (zero_bits s')\<rparr>))
      else http_write p i x (s\<lparr>zero_bits := zero_bits s - {i}\<rparr>))"

definition set_entry :: "nat \<Rightarrow> entry option \<Rightarrow> store \<Rightarrow> store" where
  "set_entry i e s = s\<lparr>entries := (entries s)(i := e)\<rparr>"

text \<open>
  Modelled from the spec: the completion of a read in flight. The block fetched becomes a
  \<open>CLEAN\<close> entry; \<open>NOT_FOUND\<close> from below is an all-zero block (``upstream treats as
  zero''); after any other error nothing is cached (scenario S6).
\<close>

definition fetch :: "params \<Rightarrow> nat \<Rightarrow> store \<Rightarrow> block outcome" where
  "fetch p i s =
     (case zero_cache_read p i s of
        (Inr d, s') \<Rightarrow> (Inr d, set_entry i (Some (CLEAN d)) s')
      | (Inl e, s') \<Rightarrow>
          if e = NOT_FOUND then (Inr (zeros p), set_entry i (Some (CLEAN (zeros p))) s')
          else (Inl e, set_entry i None s'))"

text \<open>
  Modelled from the spec: the completion of a write in flight with payload \<open>d\<close>, for an
  entry that no newer write has touched: \<open>CLEAN\<close> when the layer below took it,
  \<open>DIRTY\<close> again when it failed.
\<close>

definition write_back :: "params \<Rightarrow> nat \<Rightarrow> block \<Rightarrow> store \<Rightarrow> unit outcome" where
  "write_back p i d s =
     (case zero_cache_write p i d s of
        (Inr u, s') \<Rightarrow> (Inr (), set_entry i (Some (CLEAN d)) s')
      | (Inl e, s') \<Rightarrow> (Inl e, set_entry i (Some (DIRTY d)) s'))"

text \<open>
  Modelled from the spec: ``On read(idx): if entry exists and is CLEAN/DIRTY/WRITING/WRITING2,
  data is returned immediately. If READING/READING2, the caller waits for completion. On
  miss: insert READING, schedule a worker to fetch''. The call is taken up to its return: a
  caller that waits returns when the read in flight completes (for \<open>READING2\<close> ``the
  fetched bytes are discarded and the entry becomes DIRTY'').
\<close>

definition block_cache_read :: "params \<Rightarrow> nat \<Rightarrow> store \<Rightarrow> block outcome" where
  "block_cache_read p i s =
     (case entries s i of
        Some (CLEAN d) \<Rightarrow> (Inr d, s)
      | Some (DIRTY d) \<Rightarrow> (Inr d, s)
      | Some (WRITING d) \<Rightarrow> (Inr d, s)
      | Some (WRITING2 d x) \<Rightarrow> (Inr x, s)
      | Some READING \<Rightarrow> fetch p i s
      | Some (READING2 x) \<Rightarrow> (Inr x, set_entry i (Some (DIRTY x)) (snd (zero_cache_read p i s)))
      | None \<Rightarrow> fetch p i (set_entry i (Some READING) s))"

text \<open>
  Modelled from the spec: ``On write(idx): ... mark the entry DIRTY and leave propagation to
  the worker pool. Writes coalesce''; a fresh entry is \<open>DIRTY\<close> (``write-side miss''), a
  write to a \<open>WRITING\<close> entry ``transitions to WRITING2'', and a write during a read makes
  it \<open>READING2\<close>.
\<close>

definition block_cache_write :: "params \<Rightarrow> nat \<Rightarrow> block \<Rightarrow> store \<Rightarrow> unit outcome" where
  "block_cache_write p i x s =
     (Inr (),
      set_entry i
        (Some (case entries s i of
                 None \<Rightarrow> DIRTY x
               | Some (CLEAN d) \<Rightarrow> DIRTY x
               | Some (DIRTY d) \<Rightarrow> DIRTY x
               | Some (WRITING d) \<Rightarrow> WRITING2 d x
               | Some (WRITING2 d y) \<Rightarrow> WRITING2 d x
               | Some READING \<Rightarrow> READING2 x
               | Some (READING2 y) \<Rightarrow> READING2 x)) s)"

text \<open>
  Modelled from the spec: \<^verbatim>\<open>flush()\<close>, ``all deferred writes have been propagated
  downward''. For one block: the operation in flight completes and the data of the entry is
  written. The blocks are taken by index; a failed write ends the flush with its error.
\<close>

definition flush_entry :: "params \<Rightarrow> nat \<Rightarrow> store \<Rightarrow> unit outcome" where
  "flush_entry p i s =
     (case entries s i of
        Some (DIRTY d) \<Rightarrow> write_back p i d (set_entry i (Some (WRITING d)) s)
      | Some (WRITING d) \<Rightarrow> write_back p i d s
      | Some (WRITING2 d x) \<Rightarrow>
          write_back p i x (set_entry i (Some (WRITING x)) (snd (zero_cache_write p i d s)))
      | Some (READING2 x) \<Rightarrow>
          write_back p i x (set_entry i (Some (WRITING x)) (snd (zero_cache_read p i s)))
      | _ \<Rightarrow> (Inr (), s))"

fun flush_entries :: "params \<Rightarrow> nat list \<Rightarrow> store \<Rightarrow> unit outcome" where
  "flush_entries p [] s = (Inr (), s)"
| "flush_entries p (i # rest) s =
     (case flush_entry p i s of
        (Inl e, s') \<Rightarrow> (Inl e, s')
      | (Inr u, s') \<Rightarrow> flush_entries p rest s')"

definition block_cache_flush :: "params \<Rightarrow> store \<Rightarrow> unit outcome" where
  "block_cache_flush p s = flush_entries p [0..<num_blocks p] s"

text \<open>
  Modelled from the spec: what can happen between two operations of a caller. Other
  operations; the steps of the workers, which follow the entry state machine of section 4.1
  (a \<open>DIRTY\<close> entry goes \<open>WRITING\<close>; the write in flight completes, to \<open>CLEAN\<close>, or
  to \<open>DIRTY\<close> from \<open>WRITING2\<close>; a miss goes \<open>READING\<close>; the read in flight
  completes); the eviction of a \<open>CLEAN\<close> entry; and the object store scheduling an answer.
\<close>

datatype action =
    Read nat
  | Write nat block
  | Flush
  | Start_write nat
  | Finish_write nat
  | Start_read nat
  | Finish_read nat
  | Evict nat
  | Respond response

definition perform :: "params \<Rightarrow> action \<Rightarrow> store \<Rightarrow> store" where
  "perform p a s =
     (case a of
        Read j \<Rightarrow> snd (block_cache_read p j s)
      | Write j y \<Rightarrow> snd (block_cache_write p j y s)
      | Flush \<Rightarrow> snd (block_cache_flush p s)
      | Start_write j \<Rightarrow>
          (case entries s j of Some (DIRTY d) \<Rightarrow> set_entry j (Some (WRITING d)) s | _ \<Rightarrow> s)
      | Finish_write j \<Rightarrow>
          (case entries s j of
             Some (WRITING d) \<Rightarrow> snd (write_back p j d s)
           | Some (WRITING2 d x) \<Rightarrow> set_entry j (Some (DIRTY x)) (snd (zero_cache_write p j d s))
           | _ \<Rightarrow> s)
      | Start_read j \<Rightarrow>
          (case entries s j of None \<Rightarrow> set_entry j (Some READING) s | _ \<Rightarrow> s)
      | Finish_read j \<Rightarrow>
          (case entries s j of
             Some READING \<Rightarrow> snd (fetch p j s)
           | Some (READING2 x) \<Rightarrow> set_entry j (Some (DIRTY x)) (snd (zero_cache_read p j s))
           | _ \<Rightarrow> s)
      | Evict j \<Rightarrow>
          (case entries s j of Some (CLEAN d) \<Rightarrow> set_entry j None s | _ \<Rightarrow> s)
      | Respond r \<Rightarrow> s\<lparr>responses := responses s @ [r]\<rparr>)"

fun run :: "params \<Rightarrow> action list \<Rightarrow> store \<Rightarrow> store" where
  "run p [] s = s"
| "run p (a # as) s = run p as (perform p a s)"

text \<open>
  What the layers below the block cache hold for a block: zeros when its zero bit is set or
  when it has no object, the body of its object when that passes the checks of a read, and
  nothing that can be read otherwise.
\<close>

definition intact :: "params \<Rightarrow> obj \<Rightarrow> bool" where
  "intact p ob \<longleftrightarrow> md5 p (body ob) = etag ob \<and> length (body ob) = block_size p"

definition lower :: "params \<Rightarrow> store \<Rightarrow> nat \<Rightarrow> block option" where
  "lower p s i =
     (if i \<in> zero_bits s then Some (zeros p)
      else (case bucket s i of
              None \<Rightarrow> Some (zeros p)
            | Some ob \<Rightarrow> if intact p ob then Some (body ob) else None))"













section \<open>Example states\<close>

definition example_config :: s3b_config where
  "example_config = \<lparr>debug = False, foreground = True, read_only = False, nbd = True,
     erase = False, reset = False\<rparr>"

definition example_env :: env where
  "example_env = \<lparr>NBDKIT = True,
     s3backer_get_config = (\<lambda>argv nbd parse_only. Some example_config),
     s3backer_erase = (\<lambda>config. 0), s3backer_reset = (\<lambda>config. 0),
     s3backer_create_store = (\<lambda>config. True), fuse_ops_create = (\<lambda>config. True),
     fuse_main = (\<lambda>config. 0),
     is_valid_s3b_flag = (\<lambda>name. if name = ''blockSize'' then 2 else if name = ''ssl'' then 1 else 0),
     socket_file = (\<lambda>device. ''/run/s3backer-nbd/0000_0001''),
     NBDKIT_EXECUTABLE = ''nbdkit'', NBD_CLIENT_EXECUTABLE = ''nbd-client'',
     PACKAGE = ''s3backer'', NBD_S3B_PARAM_PREFIX = ''s3b_'',
     NBD_BUCKET_PARAMETER_NAME = ''bucket''\<rparr>"

definition example_env_no_fuse_ops :: env where
  "example_env_no_fuse_ops = example_env
     \<lparr>s3backer_get_config := (\<lambda>argv nbd parse_only. Some (example_config\<lparr>nbd := False\<rparr>)),
      fuse_ops_create := (\<lambda>config. False)\<rparr>"

definition example_children :: world where
  "example_children = \<lparr>child_pids = [11, 22, 11, 0, 0, 0, 0, 0, 0, 0], num_child_pids = 3,
     handlers = [], trace = [], answers = []\<rparr>"


definition succeeds :: answer where
  "succeeds = \<lparr>ret = 0, errno = 0, terminated = False\<rparr>"

definition gives :: "int \<Rightarrow> answer" where
  "gives r = \<lparr>ret = r, errno = 0, terminated = True\<rparr>"

definition fails :: "int \<Rightarrow> answer" where
  "fails e = \<lparr>ret = - 1, errno = e, terminated = False\<rparr>"

definition example_answers :: "answer list" where
  "example_answers = [succeeds, fails ENOENT, gives 100, succeeds, gives 101,
     succeeds, succeeds, succeeds, succeeds, fails EINTR, gives 102, succeeds, succeeds]"

definition example_argv :: "string list" where
  "example_argv = [''s3backer'', ''--nbd'', ''bucket'', ''/dev/nbd0'']"

definition state_of :: "'a res \<Rightarrow> world" where
  "state_of r = (case r of Inl (st, w) \<Rightarrow> w | Inr (a, w) \<Rightarrow> w)"

definition example_supervised :: world where
  "example_supervised = \<lparr>child_pids = [100, 101, 0, 0, 0, 0, 0, 0, 0, 0], num_child_pids = 2,
     handlers = [], trace = [],
     answers = [succeeds, succeeds, succeeds, succeeds, fails EINTR, gives 102, succeeds, succeeds]\<rparr>"

definition example_handled :: world where
  "example_handled = state_of (install_handlers forward_signals example_supervised)"

definition example_interrupted :: world where
  "example_interrupted = state_of (wait_loop example_config 101 example_handled)"

definition example_cleanup :: world where
  "example_cleanup = state_of (start_child_process example_config (NBD_CLIENT_EXECUTABLE example_env)
      [NBD_CLIENT_EXECUTABLE example_env, ''-d'', ''/dev/nbd0''] example_interrupted)"

definition example_fork_fails :: world where
  "example_fork_fails = \<lparr>child_pids = [100, 101, 0, 0, 0, 0, 0, 0, 0, 0], num_child_pids = 2,
     handlers = [], trace = [],
     answers = [succeeds, succeeds, succeeds, succeeds, fails EINTR, fails ENOENT]\<rparr>"






section \<open>Removing an exited child\<close>

lemma remove1_first_index:
  "i < length xs \<Longrightarrow> xs ! i = x \<Longrightarrow> x \<notin> set (take i xs) \<Longrightarrow>
   remove1 x xs = take i xs @ drop (Suc i) xs"
proof (induction xs arbitrary: i)
  case Nil
  then show ?case by simp
next
  case (Cons y ys)
  show ?case
  proof (cases i)
    case 0
    with Cons.prems show ?thesis by simp
  next
    case (Suc j)
    with Cons.prems have "y \<noteq> x" "j < length ys" "ys ! j = x" "x \<notin> set (take j ys)"
      by auto
    with Cons.IH [of j] Suc show ?thesis by simp
  qed
qed

lemma rce_loop_absent:
  "num_child_pids w \<le> length (child_pids w) \<Longrightarrow>
   pid \<notin> set (drop i (recorded w)) \<Longrightarrow>
   record_child_exited_loop config pid i w = w"
proof (induction config pid i w rule: record_child_exited_loop.induct)
  case (1 config pid i w)
  show ?case
  proof (cases "i < num_child_pids w")
    case False
    then show ?thesis by (subst record_child_exited_loop.simps) simp
  next
    case True
    with "1.prems" have len: "i < length (recorded w)"
      by (simp add: recorded_def)
    then have "recorded w ! i \<in> set (drop i (recorded w))"
      by (metis Cons_nth_drop_Suc list.set_intros(1))
    moreover have "recorded w ! i = child_pids w ! i"
      using True by (simp add: recorded_def)
    ultimately have ne: "child_pids w ! i \<noteq> pid"
      using "1.prems"(2) by auto
    have "pid \<notin> set (drop (i + 1) (recorded w))"
      using "1.prems"(2) by (metis Suc_eq_plus1 in_set_dropD drop_drop plus_1_eq_Suc)
    with "1.IH" [OF True ne] "1.prems"(1) True ne show ?thesis
      by (subst record_child_exited_loop.simps) simp
  qed
qed

lemma rce_loop_present:
  "num_child_pids w \<le> length (child_pids w) \<Longrightarrow>
   pid \<notin> set (take i (recorded w)) \<Longrightarrow>
   pid \<in> set (recorded w) \<Longrightarrow>
   record_child_exited_loop config pid i w =
     (daemon_warnx config ''reaped child'' w)
       \<lparr>num_child_pids := num_child_pids w - 1,
        child_pids := remove1 pid (recorded w) @ drop (num_child_pids w - 1) (child_pids w)\<rparr>"
proof (induction config pid i w rule: record_child_exited_loop.induct)
  case (1 config pid i w)
  let ?n = "num_child_pids w" and ?cp = "child_pids w"
  have i_lt: "i < ?n"
  proof (rule ccontr)
    assume "\<not> i < ?n"
    then have "take i (recorded w) = recorded w"
      by (simp add: recorded_def)
    with "1.prems" show False by simp
  qed
  show ?case
  proof (cases "?cp ! i = pid")
    case True
    have len: "i < length (recorded w)" and nth: "recorded w ! i = pid"
      using i_lt "1.prems"(1) True by (simp_all add: recorded_def)
    have r: "remove1 pid (recorded w) = take i (recorded w) @ drop (Suc i) (recorded w)"
      using remove1_first_index [OF len nth "1.prems"(2)] .
    have t: "take i (recorded w) = take i ?cp"
      using i_lt by (simp add: recorded_def min_def)
    have d: "drop (Suc i) (recorded w) = take (?n - 1 - i) (drop (Suc i) ?cp)"
      using i_lt by (simp add: recorded_def drop_take)
    have m: "memmove ?cp i (i + 1) (?n - 1 - i) =
             remove1 pid (recorded w) @ drop (?n - 1) ?cp"
      using i_lt by (simp add: memmove_def r t d)
    show ?thesis
      using i_lt True m
      by (subst record_child_exited_loop.simps) (simp add: daemon_warnx_def emit_def Let_def)
  next
    case False
    have "pid \<notin> set (take (i + 1) (recorded w))"
    proof -
      have "take (i + 1) (recorded w) = take i (recorded w) @ [recorded w ! i]"
        using i_lt "1.prems"(1) by (simp add: recorded_def take_Suc_conv_app_nth)
      moreover have "recorded w ! i = ?cp ! i"
        using i_lt by (simp add: recorded_def)
      ultimately show ?thesis using "1.prems"(2) False by simp
    qed
    with "1.IH" [OF i_lt False "1.prems"(1) _ "1.prems"(3)] i_lt False show ?thesis
      by (subst record_child_exited_loop.simps) simp
  qed
qed

text \<open>
  Claim C8. \<^verbatim>\<open>record_child_exited\<close> removes exactly the first occurrence of
  \<open>pid\<close> from the recorded children: the later entries move down one position, in
  order, and \<^verbatim>\<open>num_child_pids\<close> goes down by one; the array keeps its length. When
  \<open>pid\<close> is not on record, the whole state (array and count included) is unchanged.
\<close>

theorem record_child_exited_first_occurrence:
  assumes "num_child_pids w \<le> length (child_pids w)"
  shows "(pid \<in> set (recorded w) \<longrightarrow>
            recorded (record_child_exited config pid w) = remove1 pid (recorded w)
          \<and> num_child_pids (record_child_exited config pid w) + 1 = num_child_pids w
          \<and> length (child_pids (record_child_exited config pid w)) = length (child_pids w))
       \<and> (pid \<notin> set (recorded w) \<longrightarrow> record_child_exited config pid w = w)"
proof (intro conjI impI)
  assume mem: "pid \<in> set (recorded w)"
  then have pos: "0 < num_child_pids w"
    by (cases "num_child_pids w") (simp_all add: recorded_def)
  have eq: "record_child_exited config pid w =
     (daemon_warnx config ''reaped child'' w)
       \<lparr>num_child_pids := num_child_pids w - 1,
        child_pids := remove1 pid (recorded w) @ drop (num_child_pids w - 1) (child_pids w)\<rparr>"
    unfolding record_child_exited_def
    using rce_loop_present [OF assms _ mem, of 0 config] by simp
  have len: "length (remove1 pid (recorded w)) = num_child_pids w - 1"
    using mem assms by (simp add: length_remove1 recorded_def)
  show "recorded (record_child_exited config pid w) = remove1 pid (recorded w)"
    using len by (simp add: eq recorded_def)
  show "num_child_pids (record_child_exited config pid w) + 1 = num_child_pids w"
    using pos by (simp add: eq)
  show "length (child_pids (record_child_exited config pid w)) = length (child_pids w)"
    using len assms pos by (simp add: eq)
next
  assume "pid \<notin> set (recorded w)"
  then show "record_child_exited config pid w = w"
    unfolding record_child_exited_def
    using rce_loop_absent [OF assms, of pid 0 config] by simp
qed


theorem record_child_exited_first_occurrence_witness:
  "num_child_pids example_children \<le> length (child_pids example_children)
   \<and> 11 \<in> set (recorded example_children)
   \<and> recorded (record_child_exited example_config 11 example_children) = [22, 11]
   \<and> num_child_pids (record_child_exited example_config 11 example_children) + 1 = 3
   \<and> record_child_exited example_config 33 example_children = example_children"
proof -
  have le: "num_child_pids example_children \<le> length (child_pids example_children)"
    by (simp add: example_children_def)
  have r: "recorded example_children = [11, 22, 11]"
    by (simp add: example_children_def recorded_def)
  have n: "num_child_pids example_children = 3"
    by (simp add: example_children_def)
  show ?thesis
    using record_child_exited_first_occurrence [OF le, of 11 example_config]
      record_child_exited_first_occurrence [OF le, of 33 example_config]
    using le by (simp add: r n)
qed

section \<open>Waiting for a child\<close>



lemma recorded_answers_update [simp]: "recorded (w\<lparr>answers := as\<rparr>) = recorded w"
  by (simp add: recorded_def)






section \<open>The flags of the trampoline\<close>

lemma nbd_flag_scan_iff: "nbd_flag_scan args \<longleftrightarrow> ''--nbd'' \<in> set (takeWhile is_flag args)"
  by (induction args) (auto simp: is_flag_def starts_with_dash_def)

lemma nbd_extract_step:
  "nbd_extract (length kept) (kept @ f # fs) nbd_flags nbd_params =
     (if \<not> starts_with_dash f then Inr (length kept, kept @ f # fs, nbd_flags, nbd_params)
      else if f = ''--'' then Inr (length kept + 1, kept @ f # fs, nbd_flags, nbd_params)
      else if take 5 f \<noteq> ''--nbd''
        then nbd_extract (length (kept @ [f])) ((kept @ [f]) @ fs) nbd_flags nbd_params
      else if f = ''--nbd'' then nbd_extract (length kept) (kept @ fs) nbd_flags nbd_params
      else if CHR ''='' \<notin> set f then Inl f
      else if takeWhile (\<lambda>c. c \<noteq> CHR ''='') f = ''--nbd-flag''
        then nbd_extract (length kept) (kept @ fs)
               (nbd_flags @ [drop 1 (dropWhile (\<lambda>c. c \<noteq> CHR ''='') f)]) nbd_params
      else if takeWhile (\<lambda>c. c \<noteq> CHR ''='') f = ''--nbd-param''
        then nbd_extract (length kept) (kept @ fs) nbd_flags
               (nbd_params @ [drop 1 (dropWhile (\<lambda>c. c \<noteq> CHR ''='') f)])
      else Inl (takeWhile (\<lambda>c. c \<noteq> CHR ''='') f))"
  by (subst nbd_extract.simps) simp

lemma nbd_extract_end:
  "nbd_extract (length kept) kept nbd_flags nbd_params = Inr (length kept, kept, nbd_flags, nbd_params)"
  by (subst nbd_extract.simps) simp

lemma split_at_equals:
  "CHR ''='' \<in> set f \<Longrightarrow> f = takeWhile (\<lambda>c. c \<noteq> CHR ''='') f @ CHR ''='' # drop 1 (dropWhile (\<lambda>c. c \<noteq> CHR ''='') f)"
proof (induction f)
  case Nil
  then show ?case by simp
next
  case (Cons c cs)
  then show ?case by (cases "c = CHR ''=''") (auto simp: drop_Suc)
qed

lemma name_flag_ok:
  assumes "CHR ''='' \<in> set f"
    and "takeWhile (\<lambda>c. c \<noteq> CHR ''='') f = ''--nbd-flag'' \<or> takeWhile (\<lambda>c. c \<noteq> CHR ''='') f = ''--nbd-param''"
  shows "nbd_flag_ok f"
proof -
  from assms(2) show ?thesis
  proof
    assume a: "takeWhile (\<lambda>c. c \<noteq> CHR ''='') f = ''--nbd-flag''"
    have "f = ''--nbd-flag'' @ CHR ''='' # drop 1 (dropWhile (\<lambda>c. c \<noteq> CHR ''='') f)"
      using split_at_equals [OF assms(1)] a by simp
    then obtain v where "f = ''--nbd-flag='' @ v" by simp
    then have "take 11 f = ''--nbd-flag=''" by simp
    then show ?thesis by (simp add: nbd_flag_ok_def)
  next
    assume a: "takeWhile (\<lambda>c. c \<noteq> CHR ''='') f = ''--nbd-param''"
    have "f = ''--nbd-param'' @ CHR ''='' # drop 1 (dropWhile (\<lambda>c. c \<noteq> CHR ''='') f)"
      using split_at_equals [OF assms(1)] a by simp
    then obtain v where "f = ''--nbd-param='' @ v" by simp
    then have "take 12 f = ''--nbd-param=''" by simp
    then show ?thesis by (simp add: nbd_flag_ok_def)
  qed
qed


lemma nbd_extract_bad:
  "\<exists>f \<in> set (takeWhile is_flag rest). take 5 f = ''--nbd'' \<and> \<not> nbd_flag_ok f \<Longrightarrow>
   \<exists>m. nbd_extract (length kept) (kept @ rest) nbd_flags nbd_params = Inl m"
proof (induction rest arbitrary: kept nbd_flags nbd_params)
  case Nil
  then show ?case by simp
next
  case (Cons f fs)
  from Cons.prems have flag: "is_flag f"
    by (auto split: if_splits)
  then have dash: "starts_with_dash f" and nd: "f \<noteq> ''--''"
    by (simp_all add: is_flag_def)
  show ?case
  proof (cases "take 5 f = ''--nbd'' \<and> \<not> nbd_flag_ok f")
    case True
    then have a: "f \<noteq> ''--nbd''"
      and b: "CHR ''='' \<in> set f \<Longrightarrow> takeWhile (\<lambda>c. c \<noteq> CHR ''='') f \<noteq> ''--nbd-flag''"
      and c: "CHR ''='' \<in> set f \<Longrightarrow> takeWhile (\<lambda>c. c \<noteq> CHR ''='') f \<noteq> ''--nbd-param''"
      using name_flag_ok [of f] by (auto simp: nbd_flag_ok_def)
    show ?thesis
      using True dash nd a b c by (simp add: nbd_extract_step)
  next
    case False
    with Cons.prems flag
    have later: "\<exists>f \<in> set (takeWhile is_flag fs). take 5 f = ''--nbd'' \<and> \<not> nbd_flag_ok f"
      by auto
    show ?thesis
      using Cons.IH [OF later, of "kept @ [f]"] Cons.IH [OF later, of kept] dash nd
      by (simp add: nbd_extract_step)
  qed
qed


lemma nbd_extract_positional:
  "nbd_extract (length kept) (kept @ rest) nbd_flags nbd_params = Inr (i, argv, fl, pa) \<Longrightarrow>
   int (length argv) - int i = int (length (positional_of rest))"
proof (induction rest arbitrary: kept nbd_flags nbd_params)
  case Nil
  then have "Inr (length kept, kept, nbd_flags, nbd_params) =
      (Inr (i, argv, fl, pa) :: string + nat \<times> string list \<times> string list \<times> string list)"
    unfolding append_Nil2 nbd_extract_end .
  then have "length argv = i"
    by blast
  then show ?case
    by (simp add: positional_of_def)
next
  case (Cons f fs)
  show ?case
  proof (cases "is_flag f")
    case False
    then have pos: "positional_of (f # fs) = (if f = ''--'' then fs else f # fs)"
      by (simp add: positional_of_def)
    show ?thesis
    proof (cases "starts_with_dash f")
      case nodash: False
      then have ne: "f \<noteq> ''--''"
        by (auto simp: starts_with_dash_def)
      from nodash Cons.prems
      have "Inr (length kept, kept @ f # fs, nbd_flags, nbd_params) =
        (Inr (i, argv, fl, pa) :: string + nat \<times> string list \<times> string list \<times> string list)"
        by (simp only: nbd_extract_step if_True if_False simp_thms)
      then have "length kept = i \<and> kept @ f # fs = argv"
        by blast
      then have "int (length argv) - int i = int (length (f # fs))"
        by auto
      with pos ne show ?thesis by simp
    next
      case dash: True
      with False have eq: "f = ''--''"
        by (simp add: is_flag_def)
      from dash eq Cons.prems
      have "Inr (length kept + 1, kept @ f # fs, nbd_flags, nbd_params) =
        (Inr (i, argv, fl, pa) :: string + nat \<times> string list \<times> string list \<times> string list)"
        by (simp only: nbd_extract_step if_True if_False simp_thms)
      then have "length kept + 1 = i \<and> kept @ f # fs = argv"
        by blast
      then have "int (length argv) - int i = int (length fs)"
        by auto
      with pos eq show ?thesis by simp
    qed
  next
    case True
    then have p: "positional_of (f # fs) = positional_of fs"
      by (simp add: positional_of_def)
    from True have dash: "starts_with_dash f" and nd: "f \<noteq> ''--''"
      by (simp_all add: is_flag_def)
    have "\<exists>kept' fl' pa'. nbd_extract (length kept') (kept' @ fs) fl' pa' = Inr (i, argv, fl, pa)"
    proof (cases "take 5 f \<noteq> ''--nbd''")
      case True
      with Cons.prems dash nd
      have "nbd_extract (length (kept @ [f])) ((kept @ [f]) @ fs) nbd_flags nbd_params = Inr (i, argv, fl, pa)"
        by (simp only: nbd_extract_step if_True if_False simp_thms)
      then show ?thesis by blast
    next
      case False
      with Cons.prems dash nd
      have "(if f = ''--nbd'' then nbd_extract (length kept) (kept @ fs) nbd_flags nbd_params
      else if CHR ''='' \<notin> set f then Inl f
      else if takeWhile (\<lambda>c. c \<noteq> CHR ''='') f = ''--nbd-flag''
        then nbd_extract (length kept) (kept @ fs)
               (nbd_flags @ [drop 1 (dropWhile (\<lambda>c. c \<noteq> CHR ''='') f)]) nbd_params
      else if takeWhile (\<lambda>c. c \<noteq> CHR ''='') f = ''--nbd-param''
        then nbd_extract (length kept) (kept @ fs) nbd_flags
               (nbd_params @ [drop 1 (dropWhile (\<lambda>c. c \<noteq> CHR ''='') f)])
      else Inl (takeWhile (\<lambda>c. c \<noteq> CHR ''='') f)) = Inr (i, argv, fl, pa)"
        by (simp only: nbd_extract_step if_True if_False simp_thms)
      then show ?thesis
        by (meson sum.distinct(1))
    qed
    then obtain kept' fl' pa' where
      "nbd_extract (length kept') (kept' @ fs) fl' pa' = Inr (i, argv, fl, pa)"
      by blast
    then show ?thesis
      unfolding p by (rule Cons.IH)
  qed
qed


text \<open>
  Claim C9. \<^verbatim>\<open>main\<close> sets \<^verbatim>\<open>nbd\<close> exactly when one of the leading flags is
  the string \<^verbatim>\<open>--nbd\<close>. \<^verbatim>\<open>trampoline_to_nbd\<close> returns 2 whenever a leading flag
  that begins with \<^verbatim>\<open>--nbd\<close> is not well formed, and whenever the number of
  positional parameters is not two.
\<close>

theorem nbd_flag_handling:
  "(nbd_flag_scan (drop 1 argv) \<longleftrightarrow> ''--nbd'' \<in> set (leading_flags argv))
   \<and> ((\<exists>f \<in> set (leading_flags argv). take 5 f = ''--nbd'' \<and> \<not> nbd_flag_ok f)
        \<or> length (positional argv) \<noteq> 2
      \<longrightarrow> (\<exists>w'. trampoline_to_nbd env argv w = Inr (2, w')))"
proof (intro conjI impI)
  show "nbd_flag_scan (drop 1 argv) \<longleftrightarrow> ''--nbd'' \<in> set (leading_flags argv)"
    by (simp add: nbd_flag_scan_iff leading_flags_def)
next
  assume bad: "(\<exists>f \<in> set (leading_flags argv). take 5 f = ''--nbd'' \<and> \<not> nbd_flag_ok f)
        \<or> length (positional argv) \<noteq> 2"
  show "\<exists>w'. trampoline_to_nbd env argv w = Inr (2, w')"
  proof (cases argv)
    case Nil
    have "nbd_extract 1 [] [] [] = Inr (1, [], [], [])"
      by (subst nbd_extract.simps) simp
    with Nil show ?thesis
      by (simp add: trampoline_to_nbd_def)
  next
    case (Cons a0 args)
    have pos: "positional argv = positional_of args"
      by (simp add: Cons positional_def positional_of_def)
    have lead: "leading_flags argv = takeWhile is_flag args"
      by (simp add: Cons leading_flags_def)
    define r where "r = nbd_extract 1 argv [] []"
    have call: "r = nbd_extract (length [a0]) ([a0] @ args) [] []"
      by (simp add: r_def Cons)
    have tramp: "trampoline_to_nbd env argv w =
        (case r of
           Inl flag \<Rightarrow> Inr (2, emit (Message (''invalid flag '' @ flag)) w)
         | Inr (i, argv', nbd_flags, nbd_params) \<Rightarrow>
             if int (length argv') - int i \<noteq> 2 then Inr (2, w)
             else trampoline_setup env argv' nbd_flags nbd_params (argv' ! i) (argv' ! (i + 1)) w)"
      by (simp add: trampoline_to_nbd_def r_def)
    show ?thesis
    proof (cases r)
      case (Inl m)
      then show ?thesis
        by (simp add: tramp)
    next
      case (Inr q)
      obtain i argv' fl pa where q: "q = (i, argv', fl, pa)"
        by (cases q) auto
      have nobad: "\<not> (\<exists>f \<in> set (leading_flags argv). take 5 f = ''--nbd'' \<and> \<not> nbd_flag_ok f)"
      proof
        assume "\<exists>f \<in> set (leading_flags argv). take 5 f = ''--nbd'' \<and> \<not> nbd_flag_ok f"
        then have "\<exists>m. nbd_extract (length [a0]) ([a0] @ args) [] [] = Inl m"
          unfolding lead by (rule nbd_extract_bad)
        then have "\<exists>m. r = Inl m"
          by (simp only: call)
        with Inr show False by simp
      qed
      with bad have len: "length (positional argv) \<noteq> 2"
        by blast
      have "nbd_extract (length [a0]) ([a0] @ args) [] [] = Inr (i, argv', fl, pa)"
        using Inr q by (simp only: call [symmetric])
      then have "int (length argv') - int i = int (length (positional_of args))"
        by (rule nbd_extract_positional)
      with len pos have "int (length argv') - int i \<noteq> 2"
        by simp
      with Inr q show ?thesis
        by (simp add: tramp)
    qed
  qed
qed


theorem nbd_flag_handling_witness:
  "nbd_flag_scan (drop 1 [''s3backer'', ''-f'', ''--nbd'', ''--nbdfoo'', ''bucket'', ''/dev/nbd0''])
   \<and> ''--nbdfoo'' \<in> set (leading_flags [''s3backer'', ''-f'', ''--nbd'', ''--nbdfoo'', ''bucket'', ''/dev/nbd0''])
   \<and> take 5 ''--nbdfoo'' = ''--nbd'' \<and> \<not> nbd_flag_ok ''--nbdfoo''
   \<and> (\<exists>w'. trampoline_to_nbd example_env
          [''s3backer'', ''-f'', ''--nbd'', ''--nbdfoo'', ''bucket'', ''/dev/nbd0''] example_children = Inr (2, w'))
   \<and> length (positional [''s3backer'', ''--nbd'', ''--nbd-flag=-v'', ''bucket'']) = 1
   \<and> (\<exists>w'. trampoline_to_nbd example_env
          [''s3backer'', ''--nbd'', ''--nbd-flag=-v'', ''bucket''] example_children = Inr (2, w'))"
  using nbd_flag_handling [of "[''s3backer'', ''-f'', ''--nbd'', ''--nbdfoo'', ''bucket'', ''/dev/nbd0'']"
          example_env example_children]
    nbd_flag_handling [of "[''s3backer'', ''--nbd'', ''--nbd-flag=-v'', ''bucket'']"
          example_env example_children]
  by (simp add: leading_flags_def positional_def is_flag_def starts_with_dash_def nbd_flag_ok_def)

section \<open>Startup failures in main\<close>

text \<open>
  Claim C5, as amended. When no \<^verbatim>\<open>--nbd\<close> flag is given and the configuration asks
  for neither erase nor reset: if \<^verbatim>\<open>s3backer_create_store\<close> returns \<^verbatim>\<open>NULL\<close>,
  \<^verbatim>\<open>err\<close> prints a message and the process exits with status 1; if
  \<^verbatim>\<open>fuse_ops_create\<close> returns \<^verbatim>\<open>NULL\<close>, \<^verbatim>\<open>main\<close> calls the store's shutdown
  and then its destroy operation and returns 1, and does nothing else (it logs no message);
  if \<^verbatim>\<open>fuse_main\<close> returns nonzero, \<^verbatim>\<open>main\<close> logs an error, calls
  \<^verbatim>\<open>fuse_ops_destroy\<close> and returns 1.
\<close>

theorem main_startup_failure:
  assumes "\<not> nbd_flag_scan (drop 1 argv)"
      and "s3backer_get_config env argv False False = Some config"
      and "\<not> nbd config" and "\<not> erase config" and "\<not> reset config"
  shows
   "(\<not> s3backer_create_store env config \<longrightarrow>
       main env argv w = Inl (Exited 1, emit (Fatal ''error creating s3backer_store'') w))
  \<and> (s3backer_create_store env config \<and> \<not> fuse_ops_create env config \<longrightarrow>
       (\<exists>w'. main env argv w = Inr (1, w')
          \<and> trace w' = trace w @ (if foreground config then [] else [Set_config_log])
                               @ [Store_shutdown, Store_destroy]))
  \<and> (s3backer_create_store env config \<and> fuse_ops_create env config \<and> fuse_main env config \<noteq> 0 \<longrightarrow>
       (\<exists>w'. main env argv w = Inr (1, w')
          \<and> trace w' = trace w @ (if foreground config then [] else [Set_config_log])
                               @ [Log LOG_INFO ''s3backer process started'',
                                  Log LOG_ERR ''error starting FUSE'', Fuse_ops_destroy]))"
  using assms by (simp add: main_def err_def emit_def Let_def)

theorem main_startup_failure_witness:
  "\<not> nbd_flag_scan (drop 1 [''s3backer'', ''bucket'', ''/mnt''])
   \<and> s3backer_get_config example_env_no_fuse_ops [''s3backer'', ''bucket'', ''/mnt''] False False
       = Some (example_config\<lparr>nbd := False\<rparr>)
   \<and> s3backer_create_store example_env_no_fuse_ops (example_config\<lparr>nbd := False\<rparr>)
   \<and> \<not> fuse_ops_create example_env_no_fuse_ops (example_config\<lparr>nbd := False\<rparr>)
   \<and> (\<exists>w'. main example_env_no_fuse_ops [''s3backer'', ''bucket'', ''/mnt''] (initial_world []) = Inr (1, w')
          \<and> trace w' = [Store_shutdown, Store_destroy])"
  using main_startup_failure [of "[''s3backer'', ''bucket'', ''/mnt'']" example_env_no_fuse_ops
          "example_config\<lparr>nbd := False\<rparr>" "initial_world []"]
  by (simp add: example_env_no_fuse_ops_def example_env_def example_config_def initial_world_def
        starts_with_dash_def)

text \<open>
  Claim C5 as stated fails where \<^verbatim>\<open>fuse_ops_create\<close> returns \<^verbatim>\<open>NULL\<close>:
  \<^verbatim>\<open>main\<close> returns 1 after the shutdown and destroy calls, and no event of the run
  is a message.
\<close>

theorem main_fuse_ops_create_failure_silent:
  "s3backer_create_store example_env_no_fuse_ops (example_config\<lparr>nbd := False\<rparr>)
   \<and> \<not> fuse_ops_create example_env_no_fuse_ops (example_config\<lparr>nbd := False\<rparr>)
   \<and> main example_env_no_fuse_ops [''s3backer'', ''bucket'', ''/mnt''] (initial_world [])
       = Inr (1, (initial_world [])\<lparr>trace := [Store_shutdown, Store_destroy]\<rparr>)
   \<and> filter is_message [Store_shutdown, Store_destroy] = []"
  by (simp add: main_def example_env_no_fuse_ops_def example_env_def example_config_def
        initial_world_def starts_with_dash_def emit_def)

section \<open>The number of children on record\<close>

lemma children_within_emit [simp]: "children_within k (emit e w) = children_within k w"
  by (simp add: children_within_def emit_def)

lemma children_within_daemon_warnx [simp]:
  "children_within k (daemon_warnx config txt w) = children_within k w"
  by (simp add: daemon_warnx_def)

lemma children_within_updates [simp]:
  "children_within k (w\<lparr>answers := as\<rparr>) = children_within k w"
  "children_within k (w\<lparr>trace := tr\<rparr>) = children_within k w"
  "children_within k (w\<lparr>handlers := hs\<rparr>) = children_within k w"
  by (simp_all add: children_within_def)

lemma run_within_Inr [simp]: "run_within k (Inr (a, w)) = children_within k w"
  by (simp add: run_within_def)

lemma run_within_Inl [simp]:
  "run_within k (Inl (st, w)) \<longleftrightarrow>
     st \<noteq> AssertFailed ''num_child_pids < MAX_CHILD_PROCESSES'' \<and> children_within k w"
  by (simp add: run_within_def)

lemma run_within_err [simp]: "run_within k (err txt w) = children_within k w"
  by (simp add: err_def)

lemma run_within_daemon_err [simp]: "run_within k (daemon_err txt w) = children_within k w"
  by (simp add: daemon_err_def)

lemma children_within_mono: "children_within k w \<Longrightarrow> k \<le> k' \<Longrightarrow> children_within k' w"
  by (simp add: children_within_def)

lemma run_within_mono: "run_within k r \<Longrightarrow> k \<le> k' \<Longrightarrow> run_within k' r"
  by (auto simp: run_within_def children_within_def split: sum.splits)

lemma run_within_and_then:
  assumes "run_within k m"
      and "\<And>a w. m = Inr (a, w) \<Longrightarrow> children_within k w \<Longrightarrow> run_within k' (f a w)"
      and "k \<le> k'"
  shows "run_within k' (and_then m f)"
proof (cases m)
  case (Inl e)
  with assms(1) have "run_within k (and_then m f)"
    by (simp add: and_then_def run_within_def)
  then show ?thesis using assms(3) by (rule run_within_mono)
next
  case (Inr r)
  obtain a w where r: "r = (a, w)" by (cases r) auto
  with Inr assms(1) have "children_within k w" by simp
  with assms(2) [of a w] Inr r show ?thesis
    by (simp add: and_then_def)
qed

lemma syscall_within: "syscall w = Some (a, w') \<Longrightarrow> children_within k w' = children_within k w"
  by (auto simp: syscall_def split: list.splits)

lemma start_child_process_within:
  assumes "children_within k w" and "k < MAX_CHILD_PROCESSES"
  shows "run_within (k + 1) (start_child_process config executable params w)"
  using assms
  by (auto simp: start_child_process_def children_within_def syscall_def
        daemon_err_def err_def emit_def daemon_warnx_def Let_def
      split: list.splits)

lemma record_child_exited_within:
  assumes "children_within k w" and "k \<le> MAX_CHILD_PROCESSES"
  shows "children_within k (record_child_exited config pid w)"
proof -
  from assms have le: "num_child_pids w \<le> length (child_pids w)"
    by (simp add: children_within_def)
  show ?thesis
  proof (cases "pid \<in> set (recorded w)")
    case True
    then have pos: "0 < num_child_pids w"
      by (cases "num_child_pids w") (simp_all add: recorded_def)
    have len: "length (remove1 pid (recorded w)) = num_child_pids w - 1"
      using True le by (simp add: length_remove1 recorded_def)
    have eq: "record_child_exited config pid w =
       (daemon_warnx config ''reaped child'' w)
         \<lparr>num_child_pids := num_child_pids w - 1,
          child_pids := remove1 pid (recorded w) @ drop (num_child_pids w - 1) (child_pids w)\<rparr>"
      unfolding record_child_exited_def
      using rce_loop_present [OF le _ True, of 0 config] by simp
    have n: "num_child_pids w - 1 \<le> k"
      using assms by (auto simp: children_within_def)
    have l: "length (remove1 pid (recorded w) @ drop (num_child_pids w - 1) (child_pids w))
          = MAX_CHILD_PROCESSES"
      using len le pos assms by (simp add: children_within_def)
    show ?thesis
      using n l by (simp add: eq children_within_def)
  next
    case False
    then show ?thesis
      unfolding record_child_exited_def
      using rce_loop_absent [OF le, of pid 0 config] assms by simp
  qed
qed

lemma wait_for_child_to_exit_within:
  assumes "children_within k w" and "k \<le> MAX_CHILD_PROCESSES"
  shows "run_within k (wait_for_child_to_exit config sleep_if_none w)"
  using assms record_child_exited_within [of k "w\<lparr>answers := tl (answers w)\<rparr>" config]
  by (auto simp: wait_for_child_to_exit_def syscall_def
      split: option.splits list.splits)

lemma kill_each_within:
  "children_within k w \<Longrightarrow> run_within k (kill_each config except ps w)"
proof (induction ps arbitrary: w)
  case Nil
  then show ?case by simp
next
  case (Cons p ps)
  show ?case
  proof (cases "p = except")
    case True
    with Cons show ?thesis by simp
  next
    case False
    show ?thesis
    proof (cases "answers (daemon_warnx config ''killing child'' w)")
      case Nil
      with False Cons.prems show ?thesis
        by (simp add: syscall_def Let_def)
    next
      case (Cons a rest)
      with False Cons.prems show ?thesis
        by (simp add: syscall_def Let_def Cons.IH)
    qed
  qed
qed

lemma kill_remaining_children_within:
  "children_within k w \<Longrightarrow> run_within k (kill_remaining_children config except w)"
  by (simp add: kill_remaining_children_def kill_each_within)

lemma install_handlers_within:
  "children_within k w \<Longrightarrow> run_within k (install_handlers sigs w)"
proof (induction sigs arbitrary: w)
  case Nil
  then show ?case by simp
next
  case (Cons s sigs)
  then show ?case
    by (cases "answers w") (simp_all add: syscall_def)
qed

lemma socket_wait_loop_within:
  "children_within k w \<Longrightarrow> run_within k (socket_wait_loop unix_socket elapsed_millis w)"
proof (induction unix_socket elapsed_millis w rule: socket_wait_loop.induct)
  case (1 unix_socket elapsed_millis w)
  show ?case
  proof (cases "elapsed_millis \<le> MAX_NBDKIT_STARTUP_WAIT_MILLIS")
    case False
    with "1.prems" show ?thesis
      by (subst socket_wait_loop.simps) simp
  next
    case True
    show ?thesis
    proof (cases "syscall w")
      case None
      with True "1.prems" show ?thesis
        by (subst socket_wait_loop.simps) simp
    next
      case (Some r)
      obtain a w1 where r: "r = (a, w1)" by (cases r) auto
      have w1: "children_within k w1"
        using syscall_within [of w a w1 k] Some r "1.prems" by simp
      show ?thesis
        using True Some r w1 "1.IH" [OF True Some r [symmetric]]
        by (subst socket_wait_loop.simps) simp
    qed
  qed
qed

lemma wait_loop_within:
  "children_within k w \<Longrightarrow> k \<le> MAX_CHILD_PROCESSES \<Longrightarrow>
   run_within k (wait_loop config client_pid w)"
proof (induction config client_pid w rule: wait_loop.induct)
  case (1 config client_pid w)
  have first: "run_within k (wait_for_child_to_exit config (\<not> foreground config) w)"
    using "1.prems" by (rule wait_for_child_to_exit_within)
  show ?case
  proof (cases "wait_for_child_to_exit config (\<not> foreground config) w")
    case (Inl e)
    with first show ?thesis
      by (subst wait_loop.simps) simp
  next
    case (Inr r)
    obtain exit_pid w' where r: "r = (exit_pid, w')" by (cases r) auto
    with first Inr have w': "children_within k w'" by simp
    show ?thesis
      using Inr r w' "1.IH" [OF Inr r [symmetric] _ w' "1.prems"(2)]
      by (subst wait_loop.simps) simp
  qed
qed

lemma drain_loop_within:
  "children_within k w \<Longrightarrow> k \<le> MAX_CHILD_PROCESSES \<Longrightarrow> run_within k (drain_loop config w)"
proof (induction config w rule: drain_loop.induct)
  case (1 config w)
  have first: "run_within k (wait_for_child_to_exit config False w)"
    using "1.prems" by (rule wait_for_child_to_exit_within)
  show ?case
  proof (cases "wait_for_child_to_exit config False w")
    case (Inl e)
    with first show ?thesis
      by (subst drain_loop.simps) (simp add: run_within_def)
  next
    case (Inr r)
    obtain pid w' where r: "r = (pid, w')" by (cases r) auto
    with first Inr have w': "children_within k w'" by simp
    show ?thesis
      using Inr r w' "1.IH" [OF Inr r [symmetric] _ w' "1.prems"(2)]
      by (subst drain_loop.simps) simp
  qed
qed


lemma trampoline_supervise_within:
  assumes "children_within 2 w"
  shows "run_within 3 (trampoline_supervise env config client_pid unix_socket device_param w)"
  unfolding trampoline_supervise_def
proof (rule run_within_and_then [where k = 2])
  show "run_within 2 (install_handlers forward_signals w)"
    using assms by (rule install_handlers_within)
next
  fix u w1
  assume w1: "children_within 2 w1"
  show "run_within 3
     (and_then (wait_loop config client_pid w1) (\<lambda>exit_pid w2.
      and_then (start_child_process config (NBD_CLIENT_EXECUTABLE env)
                 [NBD_CLIENT_EXECUTABLE env, ''-d'', device_param] w2) (\<lambda>cleanup_pid w3.
      and_then (kill_remaining_children config cleanup_pid w3) (\<lambda>_ w4.
      and_then (drain_loop config w4) (\<lambda>_ w5.
      Inr (0, emit (Unlink unix_socket) w5))))))"
  proof (rule run_within_and_then [where k = 2])
    show "run_within 2 (wait_loop config client_pid w1)"
      using w1 by (rule wait_loop_within) (simp add: MAX_CHILD_PROCESSES_def)
  next
    fix exit_pid w2
    assume w2: "children_within 2 w2"
    show "run_within 3
       (and_then (start_child_process config (NBD_CLIENT_EXECUTABLE env)
                   [NBD_CLIENT_EXECUTABLE env, ''-d'', device_param] w2) (\<lambda>cleanup_pid w3.
        and_then (kill_remaining_children config cleanup_pid w3) (\<lambda>_ w4.
        and_then (drain_loop config w4) (\<lambda>_ w5.
        Inr (0, emit (Unlink unix_socket) w5)))))"
    proof (rule run_within_and_then [where k = 3])
      show "run_within 3 (start_child_process config (NBD_CLIENT_EXECUTABLE env)
                   [NBD_CLIENT_EXECUTABLE env, ''-d'', device_param] w2)"
        using start_child_process_within [OF w2, of config] by (simp add: MAX_CHILD_PROCESSES_def)
    next
      fix cleanup_pid w3
      assume w3: "children_within 3 w3"
      show "run_within 3
         (and_then (kill_remaining_children config cleanup_pid w3) (\<lambda>_ w4.
          and_then (drain_loop config w4) (\<lambda>_ w5.
          Inr (0, emit (Unlink unix_socket) w5))))"
      proof (rule run_within_and_then [where k = 3])
        show "run_within 3 (kill_remaining_children config cleanup_pid w3)"
          using w3 by (rule kill_remaining_children_within)
      next
        fix u4 w4
        assume w4: "children_within 3 w4"
        show "run_within 3 (and_then (drain_loop config w4) (\<lambda>_ w5.
          Inr (0, emit (Unlink unix_socket) w5)))"
        proof (rule run_within_and_then [where k = 3])
          show "run_within 3 (drain_loop config w4)"
            using w4 by (rule drain_loop_within) (simp add: MAX_CHILD_PROCESSES_def)
        qed simp_all
      qed simp
    qed simp
  qed simp
qed simp


lemma trampoline_run_within:
  assumes "children_within 0 w"
  shows "run_within 3
    (trampoline_run env config command_line unix_socket bucket_param device_param w)"
  unfolding trampoline_run_def
proof (rule run_within_and_then [where k = 1], goal_cases)
  case 1
  show ?case
    by (rule run_within_mono [OF start_child_process_within [OF assms]])
       (simp_all add: MAX_CHILD_PROCESSES_def)
next
  case (2 server_pid w1)
  note w1 = \<open>children_within 1 w1\<close>
  show ?case
  proof (rule run_within_and_then [where k = 1], goal_cases)
    case 1
    show ?case
    proof (cases "foreground config")
      case True
      with w1 show ?thesis by simp
    next
      case False
      have "run_within 1 (and_then (wait_for_child_to_exit config False w1) (\<lambda>exit_pid w'.
                      if exit_pid \<noteq> server_pid
                      then (if exit_pid = - 1 then err ''got signal during setup'' w'
                            else err ''wait() returned'' w')
                      else Inr ((), w')))"
      proof (rule run_within_and_then [where k = 1], goal_cases)
        case 1
        show ?case
          using w1 by (rule wait_for_child_to_exit_within) (simp add: MAX_CHILD_PROCESSES_def)
      qed simp_all
      with False show ?thesis by simp
    qed
  next
    case (2 u w2)
    note w2 = \<open>children_within 1 w2\<close>
    show ?case
    proof (rule run_within_and_then [where k = 1], goal_cases)
      case 1
      show ?case
        using w2 by (cases "answers w2") (simp_all add: syscall_def emit_def)
    next
      case (2 u3 w3)
      note w3 = \<open>children_within 1 w3\<close>
      show ?case
      proof (rule run_within_and_then [where k = 1], goal_cases)
        case 1
        show ?case using w3 by (rule socket_wait_loop_within)
      next
        case (2 file_created w4)
        note w4 = \<open>children_within 1 w4\<close>
        show ?case
        proof (cases file_created)
          case False
          with children_within_mono [OF w4, of 3] show ?thesis
            by simp
        next
          case True
          have "run_within 3
            (and_then (start_child_process config (NBD_CLIENT_EXECUTABLE env)
                 ([NBD_CLIENT_EXECUTABLE env, ''-unix'', unix_socket, ''-block-size'', ''4096'',
                   ''-nofork''] @ (if read_only config then [''-readonly''] else []) @
                  [device_param]) w4) (\<lambda>client_pid w5.
             trampoline_supervise env config client_pid unix_socket device_param w5))"
          proof (rule run_within_and_then [where k = 2], goal_cases)
            case 1
            show ?case
              by (rule run_within_mono [OF start_child_process_within [OF w4]])
                 (simp_all add: MAX_CHILD_PROCESSES_def)
          next
            case (2 client_pid w5)
            then show ?case by (simp add: trampoline_supervise_within)
          qed simp
          with True show ?thesis by simp
        qed
      qed simp
    qed simp
  qed simp
qed simp

lemma trampoline_setup_within:
  assumes "children_within 0 w"
  shows "run_within 3
    (trampoline_setup env argv nbd_flags nbd_params bucket_param device_param w)"
proof (cases "answers w")
  case Nil
  with children_within_mono [OF assms, of 3] show ?thesis
    by (simp add: trampoline_setup_def syscall_def)
next
  case a: (Cons a rest)
  show ?thesis
  proof (cases rest)
    case Nil
    with a children_within_mono [OF assms, of 3] show ?thesis
      by (simp add: trampoline_setup_def syscall_def emit_def Let_def)
  next
    case (Cons b rest')
    have w3: "children_within 0 (w\<lparr>trace := trace w @ [Unlink (socket_file env device_param)],
                answers := rest'\<rparr>)"
      using assms by simp
    show ?thesis
      using a Cons children_within_mono [OF assms, of 3] trampoline_run_within [OF w3]
      by (simp add: trampoline_setup_def syscall_def emit_def Let_def
          split: option.splits sum.splits)
  qed
qed

lemma initial_world_within: "children_within 0 (initial_world as)"
  by (simp add: children_within_def initial_world_def)

text \<open>
  Claim C7. The children are kept in the file-scope variables \<^verbatim>\<open>child_pids\<close> and
  \<^verbatim>\<open>num_child_pids\<close> alone (the two fields of the state that the bookkeeping functions
  read and write). Started with no child on record, \<^verbatim>\<open>trampoline_to_nbd\<close> never has
  more than three children on record and never fails the assertion
  \<^verbatim>\<open>num_child_pids < MAX_CHILD_PROCESSES\<close>, so every write \<^verbatim>\<open>child_pids[num_child_pids++]\<close>
  is inside the array, which keeps its ten entries. This holds for every command line,
  every environment and every list of answers of the operating system; as a run stops as
  \<open>Blocked\<close> where the answers end, the states in which the process waits in a system
  call are among the final states the theorem speaks of.
\<close>

theorem trampoline_children_bounded:
  "run_within 3 (trampoline_to_nbd env argv (initial_world as))"
  using trampoline_setup_within [OF initial_world_within]
    children_within_mono [OF initial_world_within, of 3 as]
  by (simp add: trampoline_to_nbd_def split: sum.splits prod.splits)


text \<open>
  The bound is reached: with both children running, a signal interrupts the wait, the
  cleanup nbd-client is started, and three children are on record.
\<close>

lemma example_run_blocked:
  "(case trampoline_to_nbd example_env example_argv (initial_world example_answers) of
      Inl (st, w') \<Rightarrow> st = Blocked \<and> recorded w' = [100, 101, 102]
    | Inr r \<Rightarrow> False)"
  by code_simp

theorem trampoline_children_bounded_witness:
  "run_within 3 (trampoline_to_nbd example_env example_argv (initial_world example_answers))
   \<and> (\<exists>w'. trampoline_to_nbd example_env example_argv (initial_world example_answers)
              = Inl (Blocked, w') \<and> recorded w' = [100, 101, 102])"
  using trampoline_children_bounded [of example_env example_argv example_answers]
    example_run_blocked
  by (auto split: sum.splits)

section \<open>Signals and the supervision of the children\<close>

lemma kills_append: "kills (xs @ ys) = kills xs @ kills ys"
  by (induction xs rule: kills.induct) simp_all

lemma kills_emit_Kill: "kills (trace (emit (Kill p s) w)) = kills (trace w) @ [(p, s)]"
  by (simp add: emit_def kills_append)

lemma kills_emit_Message: "kills (trace (emit (Message txt) w)) = kills (trace w)"
  by (simp add: emit_def kills_append)

lemma kill_each_kills:
  "length [p \<leftarrow> ps. p \<noteq> except] \<le> length (answers w) \<Longrightarrow>
   \<exists>w'. kill_each config except ps w = Inr ((), w')
      \<and> kills (trace w') = kills (trace w) @ map (\<lambda>p. (p, SIGTERM)) [p \<leftarrow> ps. p \<noteq> except]"
proof (induction ps arbitrary: w)
  case Nil
  then show ?case by simp
next
  case (Cons p ps)
  show ?case
  proof (cases "p = except")
    case True
    with Cons show ?thesis by simp
  next
    case False
    let ?w1 = "daemon_warnx config ''killing child'' w"
    have a1: "answers ?w1 = answers w"
      by (simp add: daemon_warnx_def emit_def)
    have k1: "kills (trace ?w1) = kills (trace w)"
      by (simp add: daemon_warnx_def kills_emit_Message)
    from Cons.prems False obtain a rest where ar: "answers w = a # rest"
      by (cases "answers w") auto
    let ?w3 = "emit (Kill p SIGTERM) (?w1\<lparr>answers := rest\<rparr>)"
    let ?w4 = "if ret a = - 1 \<and> debug config then emit (Message ''kill'') ?w3 else ?w3"
    have step: "kill_each config except (p # ps) w = kill_each config except ps ?w4"
      using False ar a1 by (simp add: syscall_def Let_def)
    have a4: "answers ?w4 = rest"
      by (simp add: emit_def)
    have k4: "kills (trace ?w4) = kills (trace w) @ [(p, SIGTERM)]"
      using k1 by (simp add: emit_def kills_append)
    have "length [q \<leftarrow> ps. q \<noteq> except] \<le> length (answers ?w4)"
      using Cons.prems False ar a4 by simp
    from Cons.IH [OF this] obtain w' where
      "kill_each config except ps ?w4 = Inr ((), w')"
      "kills (trace w') = kills (trace ?w4) @ map (\<lambda>p. (p, SIGTERM)) [q \<leftarrow> ps. q \<noteq> except]"
      by blast
    with step k4 False show ?thesis
      by simp
  qed
qed

lemma install_handlers_installed:
  "install_handlers sigs w = Inr ((), w') \<Longrightarrow> handlers w' = handlers w @ sigs"
proof (induction sigs arbitrary: w)
  case Nil
  then show ?case by simp
next
  case (Cons s sigs)
  from Cons.prems obtain a rest where ar: "answers w = a # rest"
    by (cases "answers w") (auto simp: syscall_def)
  with Cons.prems have ok: "ret a \<noteq> - 1"
    by (auto simp: syscall_def daemon_err_def err_def split: if_splits)
  with Cons.prems ar have
    "install_handlers sigs (emit (Sigaction s) (w\<lparr>answers := rest, handlers := handlers w @ [s]\<rparr>)) = Inr ((), w')"
    by (simp add: syscall_def)
  from Cons.IH [OF this] show ?case
    by (simp add: emit_def)
qed

lemma wait_loop_exit:
  "wait_for_child_to_exit config (\<not> foreground config) v = Inr (p, v') \<Longrightarrow> p \<noteq> cp \<Longrightarrow>
   wait_loop config cp v = Inr (p, v')"
  by (subst wait_loop.simps) simp

lemma start_child_process_pid:
  "start_child_process config executable params v = Inr (pid, v') \<Longrightarrow> pid \<noteq> - 1"
  by (auto simp: start_child_process_def syscall_def daemon_err_def err_def Let_def
      split: if_splits list.splits)

lemma wait_loop_exit_after_client:
  "wait_for_child_to_exit config (\<not> foreground config) v1 = Inr (cp, v) \<Longrightarrow>
   wait_for_child_to_exit config (\<not> foreground config) v = Inr (p, v') \<Longrightarrow> p \<noteq> - 2 \<Longrightarrow>
   wait_loop config cp v1 = Inr (p, v')"
  by (subst wait_loop.simps) (simp add: wait_loop_exit)

lemma start_child_process_fork_fails:
  assumes "num_child_pids v < MAX_CHILD_PROCESSES" and "answers v = a # rest" and "ret a = - 1"
  shows "\<exists>v'. start_child_process config executable params v = Inl (Exited 1, v')
           \<and> kills (trace v') = kills (trace v) \<and> recorded v' = recorded v"
proof (cases "debug config")
  case True
  have k: "kills (map Message params) = []"
    by (induction params) simp_all
  from True assms k show ?thesis
    by (simp add: start_child_process_def syscall_def daemon_err_def err_def emit_def
        kills_append recorded_def)
next
  case False
  with assms show ?thesis
    by (simp add: start_child_process_def syscall_def daemon_err_def err_def emit_def
        kills_append recorded_def)
qed

text \<open>
  Claim C6. In \<^verbatim>\<open>trampoline_to_nbd\<close> the supervision (lines 377 to 415) first installs a
  handler for every signal of \<^verbatim>\<open>forward_signals\<close>, which are \<^verbatim>\<open>SIGHUP\<close>,
  \<^verbatim>\<open>SIGINT\<close>, \<^verbatim>\<open>SIGQUIT\<close> and \<^verbatim>\<open>SIGTERM\<close>, and enters the wait loop in the
  state \<open>w1\<close> that has them installed. Whenever \<^verbatim>\<open>wait_for_child_to_exit\<close> returns
  there with something other than the pid of nbd-client, or returns that pid and then, on
  the next turn, anything (a real result is never \<open>-2\<close>), the loop ends with that value:
  so it does when a signal interrupts the wait (the value is \<open>-1\<close>, which is not a pid
  that \<^verbatim>\<open>start_child_process\<close> returns) and when a child other than nbd-client
  exits. What follows depends on the start of the cleanup nbd-client. If
  \<^verbatim>\<open>start_child_process\<close> returns its pid \<open>cleanup_pid\<close>,
  \<^verbatim>\<open>kill_remaining_children\<close> sends \<^verbatim>\<open>SIGTERM\<close> to every child on record but
  \<open>cleanup_pid\<close>, in the order of the array, and to no one else (the oracle has an
  answer for each \<^verbatim>\<open>kill\<close>); what is left of the function is the last wait loop and
  the removal of the socket file. If \<^verbatim>\<open>fork_off\<close> fails, \<^verbatim>\<open>daemon_err\<close> ends the
  process with status 1: no signal is sent and the children stay on record.
\<close>

theorem trampoline_forwards_signals:
  assumes handlers: "install_handlers forward_signals w = Inr ((), w1)"
      and event: "(wait_for_child_to_exit config (\<not> foreground config) w1 = Inr (exit_pid, w2)
                     \<and> exit_pid \<noteq> client_pid)
                \<or> (wait_for_child_to_exit config (\<not> foreground config) w1 = Inr (client_pid, v)
                     \<and> wait_for_child_to_exit config (\<not> foreground config) v = Inr (exit_pid, w2)
                     \<and> exit_pid \<noteq> - 2)"
  shows "set forward_signals = {SIGHUP, SIGINT, SIGQUIT, SIGTERM}
       \<and> set forward_signals \<subseteq> set (handlers w1)
       \<and> (\<forall>executable params u pid u'.
             start_child_process config executable params u = Inr (pid, u') \<longrightarrow> pid \<noteq> - 1)
       \<and> wait_loop config client_pid w1 = Inr (exit_pid, w2)
       \<and> (\<forall>cleanup_pid w3.
             start_child_process config (NBD_CLIENT_EXECUTABLE env)
               [NBD_CLIENT_EXECUTABLE env, ''-d'', device_param] w2 = Inr (cleanup_pid, w3)
             \<and> length [p \<leftarrow> recorded w3. p \<noteq> cleanup_pid] \<le> length (answers w3) \<longrightarrow>
             (\<exists>w4. kill_remaining_children config cleanup_pid w3 = Inr ((), w4)
                \<and> kills (trace w4) =
                    kills (trace w3) @ map (\<lambda>p. (p, SIGTERM)) [p \<leftarrow> recorded w3. p \<noteq> cleanup_pid]
                \<and> trampoline_supervise env config client_pid unix_socket device_param w
                    = and_then (drain_loop config w4) (\<lambda>u w5. Inr (0, emit (Unlink unix_socket) w5))))
       \<and> (\<forall>a rest. num_child_pids w2 < MAX_CHILD_PROCESSES \<and> answers w2 = a # rest \<and> ret a = - 1 \<longrightarrow>
             (\<exists>w'. trampoline_supervise env config client_pid unix_socket device_param w
                      = Inl (Exited 1, w')
                \<and> kills (trace w') = kills (trace w2) \<and> recorded w' = recorded w2))"
proof -
  have loop: "wait_loop config client_pid w1 = Inr (exit_pid, w2)"
    using event
  proof
    assume "wait_for_child_to_exit config (\<not> foreground config) w1 = Inr (exit_pid, w2)
              \<and> exit_pid \<noteq> client_pid"
    then show ?thesis
      using wait_loop_exit by blast
  next
    assume "wait_for_child_to_exit config (\<not> foreground config) w1 = Inr (client_pid, v)
              \<and> wait_for_child_to_exit config (\<not> foreground config) v = Inr (exit_pid, w2)
              \<and> exit_pid \<noteq> - 2"
    then show ?thesis
      using wait_loop_exit_after_client by blast
  qed
  have killed: "\<exists>w4. kill_remaining_children config cleanup_pid w3 = Inr ((), w4)
                \<and> kills (trace w4) =
                    kills (trace w3) @ map (\<lambda>p. (p, SIGTERM)) [p \<leftarrow> recorded w3. p \<noteq> cleanup_pid]
                \<and> trampoline_supervise env config client_pid unix_socket device_param w
                    = and_then (drain_loop config w4) (\<lambda>u w5. Inr (0, emit (Unlink unix_socket) w5))"
    if spawn: "start_child_process config (NBD_CLIENT_EXECUTABLE env)
               [NBD_CLIENT_EXECUTABLE env, ''-d'', device_param] w2 = Inr (cleanup_pid, w3)"
      and fuel: "length [p \<leftarrow> recorded w3. p \<noteq> cleanup_pid] \<le> length (answers w3)"
    for cleanup_pid w3
  proof -
    from kill_each_kills [where ps = "recorded w3" and except = cleanup_pid and w = w3
        and config = config] fuel
    obtain w4 where k: "kill_remaining_children config cleanup_pid w3 = Inr ((), w4)"
      and t: "kills (trace w4) =
                 kills (trace w3) @ map (\<lambda>p. (p, SIGTERM)) [p \<leftarrow> recorded w3. p \<noteq> cleanup_pid]"
      by (auto simp: kill_remaining_children_def recorded_def)
    have "trampoline_supervise env config client_pid unix_socket device_param w
                 = and_then (drain_loop config w4) (\<lambda>u w5. Inr (0, emit (Unlink unix_socket) w5))"
      by (simp add: trampoline_supervise_def and_then_def handlers loop spawn k)
    with k t show ?thesis
      by blast
  qed
  have failed: "\<exists>w'. trampoline_supervise env config client_pid unix_socket device_param w
                      = Inl (Exited 1, w')
                \<and> kills (trace w') = kills (trace w2) \<and> recorded w' = recorded w2"
    if "num_child_pids w2 < MAX_CHILD_PROCESSES" and "answers w2 = a # rest" and "ret a = - 1"
    for a rest
  proof -
    from start_child_process_fork_fails [OF that, of config "NBD_CLIENT_EXECUTABLE env"
        "[NBD_CLIENT_EXECUTABLE env, ''-d'', device_param]"]
    obtain w' where "start_child_process config (NBD_CLIENT_EXECUTABLE env)
               [NBD_CLIENT_EXECUTABLE env, ''-d'', device_param] w2 = Inl (Exited 1, w')"
      and "kills (trace w') = kills (trace w2)" and "recorded w' = recorded w2"
      by blast
    then show ?thesis
      by (simp add: trampoline_supervise_def and_then_def handlers loop)
  qed
  show ?thesis
  proof (intro conjI)
    show "set forward_signals = {SIGHUP, SIGINT, SIGQUIT, SIGTERM}"
      by (simp add: forward_signals_def)
    show "set forward_signals \<subseteq> set (handlers w1)"
      using install_handlers_installed [OF handlers] by simp
    show "\<forall>executable params u pid u'.
             start_child_process config executable params u = Inr (pid, u') \<longrightarrow> pid \<noteq> - 1"
      using start_child_process_pid by blast
    show "wait_loop config client_pid w1 = Inr (exit_pid, w2)"
      by (rule loop)
    show "\<forall>cleanup_pid w3.
             start_child_process config (NBD_CLIENT_EXECUTABLE env)
               [NBD_CLIENT_EXECUTABLE env, ''-d'', device_param] w2 = Inr (cleanup_pid, w3)
             \<and> length [p \<leftarrow> recorded w3. p \<noteq> cleanup_pid] \<le> length (answers w3) \<longrightarrow>
             (\<exists>w4. kill_remaining_children config cleanup_pid w3 = Inr ((), w4)
                \<and> kills (trace w4) =
                    kills (trace w3) @ map (\<lambda>p. (p, SIGTERM)) [p \<leftarrow> recorded w3. p \<noteq> cleanup_pid]
                \<and> trampoline_supervise env config client_pid unix_socket device_param w
                    = and_then (drain_loop config w4) (\<lambda>u w5. Inr (0, emit (Unlink unix_socket) w5)))"
      using killed by blast
    show "\<forall>a rest. num_child_pids w2 < MAX_CHILD_PROCESSES \<and> answers w2 = a # rest \<and> ret a = - 1 \<longrightarrow>
             (\<exists>w'. trampoline_supervise env config client_pid unix_socket device_param w
                      = Inl (Exited 1, w')
                \<and> kills (trace w') = kills (trace w2) \<and> recorded w' = recorded w2)"
      using failed by blast
  qed
qed


lemma example_handled_run:
  "install_handlers forward_signals example_supervised = Inr ((), example_handled)"
  by code_simp

lemma example_interrupted_run:
  "wait_loop example_config 101 example_handled = Inr (- 1, example_interrupted)"
  by code_simp

lemma example_cleanup_run:
  "start_child_process example_config (NBD_CLIENT_EXECUTABLE example_env)
      [NBD_CLIENT_EXECUTABLE example_env, ''-d'', ''/dev/nbd0''] example_interrupted
   = Inr (102, example_cleanup)"
  by code_simp

lemma example_cleanup_values:
  "length [p \<leftarrow> recorded example_cleanup. p \<noteq> 102] \<le> length (answers example_cleanup)"
  "map (\<lambda>p. (p, SIGTERM)) [p \<leftarrow> recorded example_cleanup. p \<noteq> 102] = [(100, 15), (101, 15)]"
  "kills (trace example_cleanup) = []"
  "handlers example_handled = [1, 2, 3, 15]"
  by code_simp+

lemma example_signal_run:
  "wait_for_child_to_exit example_config (\<not> foreground example_config) example_handled
     = Inr (- 1, example_interrupted)"
  by code_simp

theorem trampoline_forwards_signals_witness:
  "install_handlers forward_signals example_supervised = Inr ((), example_handled)
   \<and> wait_for_child_to_exit example_config (\<not> foreground example_config) example_handled
       = Inr (- 1, example_interrupted)
   \<and> wait_loop example_config 101 example_handled = Inr (- 1, example_interrupted)
   \<and> start_child_process example_config (NBD_CLIENT_EXECUTABLE example_env)
        [NBD_CLIENT_EXECUTABLE example_env, ''-d'', ''/dev/nbd0''] example_interrupted
       = Inr (102, example_cleanup)
   \<and> length [p \<leftarrow> recorded example_cleanup. p \<noteq> 102] \<le> length (answers example_cleanup)
   \<and> handlers example_handled = [1, 2, 3, 15]
   \<and> set forward_signals \<subseteq> set (handlers example_handled)
   \<and> (\<exists>w4. kill_remaining_children example_config 102 example_cleanup = Inr ((), w4)
          \<and> kills (trace w4) = [(100, 15), (101, 15)])"
proof -
  have event: "(wait_for_child_to_exit example_config (\<not> foreground example_config) example_handled
                  = Inr (- 1, example_interrupted) \<and> - 1 \<noteq> (101 :: int))
             \<or> (wait_for_child_to_exit example_config (\<not> foreground example_config) example_handled
                  = Inr (101, example_handled)
                \<and> wait_for_child_to_exit example_config (\<not> foreground example_config) example_handled
                  = Inr (- 1, example_interrupted) \<and> - 1 \<noteq> (- 2 :: int))"
    using example_signal_run by simp
  from trampoline_forwards_signals [OF example_handled_run event,
      where env = example_env and device_param = "''/dev/nbd0''" and unix_socket = "''/run/socket''"]
  have loop: "wait_loop example_config 101 example_handled = Inr (- 1, example_interrupted)"
    and kill: "\<forall>cleanup_pid w3.
        start_child_process example_config (NBD_CLIENT_EXECUTABLE example_env)
          [NBD_CLIENT_EXECUTABLE example_env, ''-d'', ''/dev/nbd0''] example_interrupted
          = Inr (cleanup_pid, w3)
        \<and> length [p \<leftarrow> recorded w3. p \<noteq> cleanup_pid] \<le> length (answers w3) \<longrightarrow>
        (\<exists>w4. kill_remaining_children example_config cleanup_pid w3 = Inr ((), w4)
           \<and> kills (trace w4) =
               kills (trace w3) @ map (\<lambda>p. (p, SIGTERM)) [p \<leftarrow> recorded w3. p \<noteq> cleanup_pid]
           \<and> trampoline_supervise example_env example_config 101 ''/run/socket'' ''/dev/nbd0''
                example_supervised
               = and_then (drain_loop example_config w4)
                   (\<lambda>u w5. Inr (0, emit (Unlink ''/run/socket'') w5)))"
    by blast+
  from kill example_cleanup_run example_cleanup_values(1)
  obtain w4 where "kill_remaining_children example_config 102 example_cleanup = Inr ((), w4)"
    and "kills (trace w4) = kills (trace example_cleanup)
           @ map (\<lambda>p. (p, SIGTERM)) [p \<leftarrow> recorded example_cleanup. p \<noteq> 102]"
    by blast
  then have "\<exists>w4. kill_remaining_children example_config 102 example_cleanup = Inr ((), w4)
          \<and> kills (trace w4) = [(100, 15), (101, 15)]"
    by (simp add: example_cleanup_values)
  with loop example_handled_run example_signal_run example_cleanup_run example_cleanup_values
  show ?thesis
    by (simp add: forward_signals_def SIGHUP_def SIGINT_def SIGQUIT_def SIGTERM_def)
qed

text \<open>
  The claim without the condition on the cleanup process fails: handlers installed, two
  children on record, a signal interrupts the wait, and \<^verbatim>\<open>fork_off\<close> fails for the
  cleanup nbd-client. The process exits with status 1, both children are still on record
  and no signal has been sent.
\<close>

theorem trampoline_cleanup_fork_failure:
  "wait_for_child_to_exit example_config (\<not> foreground example_config)
      \<lparr>child_pids = [100, 101, 0, 0, 0, 0, 0, 0, 0, 0], num_child_pids = 2,
       handlers = [1, 2, 3, 15],
       trace = [Sigaction 1, Sigaction 2, Sigaction 3, Sigaction 15],
       answers = [fails EINTR, fails ENOENT]\<rparr>
     = Inr (- 1, \<lparr>child_pids = [100, 101, 0, 0, 0, 0, 0, 0, 0, 0], num_child_pids = 2,
       handlers = [1, 2, 3, 15],
       trace = [Sigaction 1, Sigaction 2, Sigaction 3, Sigaction 15],
       answers = [fails ENOENT]\<rparr>)
   \<and> trampoline_supervise example_env example_config 101 ''/run/socket'' ''/dev/nbd0''
       example_fork_fails
     = Inl (Exited 1, \<lparr>child_pids = [100, 101, 0, 0, 0, 0, 0, 0, 0, 0], num_child_pids = 2,
         handlers = [1, 2, 3, 15],
         trace = [Sigaction 1, Sigaction 2, Sigaction 3, Sigaction 15, Fatal ''nbd-client''],
         answers = []\<rparr>)
   \<and> recorded \<lparr>child_pids = [100, 101, 0, 0, 0, 0, 0, 0, 0, 0], num_child_pids = 2,
         handlers = [1, 2, 3, 15],
         trace = [Sigaction 1, Sigaction 2, Sigaction 3, Sigaction 15, Fatal ''nbd-client''],
         answers = []\<rparr> = [100, 101]
   \<and> kills [Sigaction 1, Sigaction 2, Sigaction 3, Sigaction 15, Fatal ''nbd-client''] = []"
  by code_simp

section \<open>The layered block store: the invariant\<close>










lemma all_zero_zeros_self [simp]: "all_zero (zeros p)"
  by (simp add: all_zero_def zeros_def list_all_iff)










lemma set_entry_fields [simp]:
  "entries (set_entry i eo s) = (entries s)(i := eo)"
  "zero_bits (set_entry i eo s) = zero_bits s"
  "bucket (set_entry i eo s) = bucket s"
  "requests (set_entry i eo s) = requests s"
  "responses (set_entry i eo s) = responses s"
  by (simp_all add: set_entry_def)

lemma lower_set_entry [simp]: "lower p (set_entry i eo s) = lower p s"
  by (rule ext) (simp add: lower_def)




































section \<open>Reading a block after a write\<close>






section \<open>Writing an all-zero block\<close>





end
